theory Spec2Isabelle
  imports Complex_Main
begin

section \<open>Data model of the chat client (client/src/pages/MainChat.tsx)\<close>

text \<open>
  The client keeps its state in React hooks. Every \<open>setX((prev) => ...)\<close> updater of the
  source is a pure function from the previous value to the next one and is embedded as
  such; an asynchronous handler is split at each \<open>await\<close> into the updater that runs
  before it and the updaters of its success and error continuations. Clock readings
  (\<open>Date.now()\<close>, \<open>new Date().toISOString()\<close>) are parameters.
\<close>

type_synonym user_id = string
type_synonym chat_id = string
type_synonym message_id = string

text \<open>The \<open>sender\<close> object literal: \<open>{ id, firstName, lastName }\<close>.\<close>

record sender_info =
  sender_id :: user_id
  firstName :: string
  lastName :: string

text \<open>The media descriptor \<open>{ type, url }\<close>.\<close>

record media_info =
  media_type :: string
  media_url :: string

datatype msg_status = sending | sent | other_status string

text \<open>
  \<open>MessageWithFlags\<close>: the fields of the \<open>tempMessage\<close> literal of \<open>handleSendMessage\<close>
  together with the optional transient flags \<open>_isNew\<close>, \<open>_isDeleting\<close>, \<open>_isEditing\<close>
  (\<open>None\<close> is an absent property).
\<close>

record message =
  msg_id :: message_id
  chatId :: chat_id
  senderId :: user_id
  sender :: sender_info
  content :: "string option"
  media :: "media_info option"
  editedAt :: "string option"
  deletedFor :: "user_id list"
  timestamp :: string
  status :: msg_status
  deliveredAt :: "string option"
  isNew :: "bool option"
  isDeleting :: "bool option"
  isEditing :: "bool option"

text \<open>The signed-in user of \<open>useApp()\<close>; \<open>None\<close> is the \<open>!user\<close> case.\<close>

record app_user =
  uid :: user_id
  user_firstName :: string
  user_lastName :: string

text \<open>The outcome of an awaited server call: \<open>Inl\<close> is a rejected promise.\<close>

datatype api_error = ApiError string

section \<open>Optimistic edit (\<open>handleEditMessage\<close>)\<close>

text \<open>
  The optimistic updater: \<open>prev.map(m => m.id === messageId ? { ...m, content,
  editedAt: new Date().toISOString(), _isEditing: false } : m)\<close>.
\<close>

definition editOptimistic :: "string \<Rightarrow> message_id \<Rightarrow> string \<Rightarrow> message list \<Rightarrow> message list" where
  "editOptimistic nowIso messageId newContent prev =
     map (\<lambda>m. if msg_id m = messageId
                then m\<lparr>content := Some newContent, editedAt := Some nowIso, isEditing := Some False\<rparr>
                else m) prev"

text \<open>The updater of the \<open>catch\<close> branch: \<open>setMessages((prev) => prev)\<close>.\<close>

definition editRollback :: "message list \<Rightarrow> message list" where
  "editRollback prev = prev"

text \<open>
  The whole handler, with the outcome of \<open>api.messages.edit\<close> given. The \<open>chatId\<close>
  argument is not used by the source.
\<close>

definition handleEditMessage ::
  "app_user option \<Rightarrow> string \<Rightarrow> api_error + unit \<Rightarrow> message_id \<Rightarrow> string \<Rightarrow> chat_id
     \<Rightarrow> message list \<Rightarrow> message list" where
  "handleEditMessage user nowIso apiResult messageId newContent cid msgs =
     (case user of
        None \<Rightarrow> msgs
      | Some u \<Rightarrow>
          (let optimistic = editOptimistic nowIso messageId newContent msgs
           in case apiResult of
                Inr _ \<Rightarrow> optimistic
              | Inl err \<Rightarrow> editRollback optimistic))"


section \<open>Reconciliation of inbound events (components/MessageWindow.tsx)\<close>

text \<open>
  \<open>MessageResponse\<close>, the payload of a message-created event and of the reply of
  \<open>api.messages.send\<close>: the message fields with an optional \<open>sender\<close> and no
  transient flag.
\<close>

record message_response =
  mr_id :: message_id
  mr_chatId :: chat_id
  mr_senderId :: user_id
  mr_sender :: "sender_info option"
  mr_content :: "string option"
  mr_media :: "media_info option"
  mr_editedAt :: "string option"
  mr_deletedFor :: "user_id list"
  mr_timestamp :: string
  mr_status :: msg_status
  mr_deliveredAt :: "string option"

text \<open>The spread \<open>{ ...message }\<close> of a response into a list entry: no flag is set.\<close>

definition spreadResponse :: "message_response \<Rightarrow> sender_info \<Rightarrow> message" where
  "spreadResponse r s =
     \<lparr>msg_id = mr_id r, chatId = mr_chatId r, senderId = mr_senderId r, sender = s,
      content = mr_content r, media = mr_media r, editedAt = mr_editedAt r,
      deletedFor = mr_deletedFor r, timestamp = mr_timestamp r, status = mr_status r,
      deliveredAt = mr_deliveredAt r, isNew = None, isDeleting = None, isEditing = None\<rparr>"

text \<open>
  \<open>{ ...message, sender: message.sender || { id: message.senderId, firstName: '',
  lastName: '' } }\<close>.
\<close>

definition messageWithSender :: "message_response \<Rightarrow> message" where
  "messageWithSender r =
     spreadResponse r
       (case mr_sender r of
          Some s \<Rightarrow> s
        | None \<Rightarrow> \<lparr>sender_id = mr_senderId r, firstName = '''', lastName = ''''\<rparr>)"

text \<open>
  The subscriber of message-created events. The effect subscribes nothing when
  \<open>chatId\<close> is falsy (the empty string); an event of another chat returns before
  \<open>setMessages\<close>; \<open>prev.some((m) => m.id === message.id)\<close> keeps \<open>prev\<close>.
\<close>

definition windowOnNewMessage :: "chat_id \<Rightarrow> message_response \<Rightarrow> message list \<Rightarrow> message list" where
  "windowOnNewMessage cid r prev =
     (if cid = [] then prev
      else if mr_chatId r \<noteq> cid then prev
      else if list_ex (\<lambda>m. msg_id m = mr_id r) prev then prev
      else prev @ [messageWithSender r])"

record deleted_event =
  de_chatId :: chat_id
  de_messageId :: message_id

definition windowOnMessageDeleted :: "chat_id \<Rightarrow> deleted_event \<Rightarrow> message list \<Rightarrow> message list" where
  "windowOnMessageDeleted cid d prev =
     (if cid = [] then prev
      else if de_chatId d = cid then filter (\<lambda>m. msg_id m \<noteq> de_messageId d) prev
      else prev)"

record edited_event =
  ee_chatId :: chat_id
  ee_messageId :: message_id
  ee_content :: "string option"
  ee_editedAt :: "string option"

definition windowOnMessageEdited :: "chat_id \<Rightarrow> edited_event \<Rightarrow> message list \<Rightarrow> message list" where
  "windowOnMessageEdited cid d prev =
     (if cid = [] then prev
      else if ee_chatId d = cid
      then map (\<lambda>m. if msg_id m = ee_messageId d
                      then m\<lparr>content := ee_content d, editedAt := ee_editedAt d\<rparr>
                      else m) prev
      else prev)"

section \<open>Chat list and unread counters (\<open>onNewMessage\<close> of MainChat.tsx)\<close>

record last_message =
  lm_content :: "string option"
  lm_senderId :: user_id
  lm_timestamp :: string

text \<open>
  A chat as the chat list holds it and as the server stores it. \<open>unreadCount\<close> is the
  object (a Mongo map on the server) from user id to a number; the participants are kept
  by their ids, their profile fields play no part in the code embedded here.
\<close>

record chat =
  chat_id :: chat_id
  participants :: "user_id list"
  chat_type :: string
  lastMessage :: "last_message option"
  unreadCount :: "user_id \<rightharpoonup> int"
  createdAt :: string
  updatedAt :: string

text \<open>\<open>x || 0\<close> on an optional number: an absent value and \<open>0\<close> both give \<open>0\<close>.\<close>

definition orZero :: "int option \<Rightarrow> int" where
  "orZero x = (case x of None \<Rightarrow> 0 | Some v \<Rightarrow> if v = 0 then 0 else v)"

text \<open>
  The first updater of the handler, applied to one chat of \<open>prev.map\<close>. The call of
  \<open>api.chats.markAsRead\<close> it fires for the open chat does not touch the list. A chat
  without an \<open>unreadCount\<close> object is a chat with the empty map.
\<close>

definition bumpChat :: "user_id \<Rightarrow> chat_id option \<Rightarrow> message_response \<Rightarrow> chat \<Rightarrow> chat" where
  "bumpChat me selected r c =
     (if chat_id c \<noteq> mr_chatId r then c
      else
        (let shouldIncrementUnread = (mr_senderId r \<noteq> me \<and> Some (mr_chatId r) \<noteq> selected)
         in c\<lparr>lastMessage :=
                Some \<lparr>lm_content = mr_content r, lm_senderId = mr_senderId r,
                      lm_timestamp = mr_timestamp r\<rparr>,
              unreadCount :=
                (if shouldIncrementUnread
                 then (unreadCount c)(me \<mapsto> orZero (unreadCount c me) + 1)
                 else unreadCount c)\<rparr>))"

text \<open>\<open>Array.prototype.findIndex\<close>: the first index that satisfies, or \<open>-1\<close>.\<close>

fun findIndex :: "('a \<Rightarrow> bool) \<Rightarrow> 'a list \<Rightarrow> int" where
  "findIndex P [] = -1"
| "findIndex P (x # xs) =
     (if P x then 0 else (let i = findIndex P xs in if i < 0 then -1 else i + 1))"

text \<open>
  The second updater: the chat of the message moves to the head of the list
  (\<open>splice(chatIndex, 1)\<close>, then \<open>[chat, ...next]\<close>).
\<close>

definition moveChatToFront :: "chat_id \<Rightarrow> chat list \<Rightarrow> chat list" where
  "moveChatToFront cid prev =
     (let chatIndex = findIndex (\<lambda>c. chat_id c = cid) prev
      in if chatIndex \<le> 0 then prev
         else (prev ! nat chatIndex) # (take (nat chatIndex) prev @ drop (nat chatIndex + 1) prev))"

definition mainOnNewMessage :: "user_id \<Rightarrow> chat_id option \<Rightarrow> message_response \<Rightarrow> chat list \<Rightarrow> chat list" where
  "mainOnNewMessage me selected r prev =
     moveChatToFront (mr_chatId r) (map (bumpChat me selected r) prev)"

text \<open>\<open>chats.find((c) => c.id === id)\<close>, the way the page looks a chat up.\<close>

definition findChat :: "chat_id \<Rightarrow> chat list \<Rightarrow> chat option" where
  "findChat cid cs = find (\<lambda>c. chat_id c = cid) cs"

text \<open>The counter the chat list shows for a user: \<open>chat.unreadCount?.[userId] || 0\<close>.\<close>

definition unreadOf :: "user_id \<Rightarrow> chat \<Rightarrow> int" where
  "unreadOf u c = orZero (unreadCount c u)"

definition countersNonNegative :: "chat \<Rightarrow> bool" where
  "countersNonNegative c = (\<forall>u v. unreadCount c u = Some v \<longrightarrow> 0 \<le> v)"

section \<open>Optimistic send (\<open>handleSendMessage\<close>)\<close>

text \<open>
  The decimal digits of \<open>Date.now()\<close>, as the template literal prints them.
  \<open>digitChar\<close> is only applied to numbers below 10.
\<close>

definition digitChar :: "nat \<Rightarrow> char" where
  "digitChar d = ''0123456789'' ! d"

fun showNat :: "nat \<Rightarrow> string" where
  "showNat n = (if n < 10 then [digitChar n] else showNat (n div 10) @ [digitChar (n mod 10)])"

text \<open>\<open>`temp-${Date.now()}`\<close>.\<close>

definition tempIdOf :: "nat \<Rightarrow> message_id" where
  "tempIdOf nowMs = ''temp-'' @ showNat nowMs"

text \<open>A string option in a condition: \<open>null\<close> and the empty string are falsy.\<close>

definition truthy :: "string option \<Rightarrow> bool" where
  "truthy s = (case s of None \<Rightarrow> False | Some v \<Rightarrow> v \<noteq> [])"

text \<open>The \<open>tempMessage\<close> literal.\<close>

definition tempMessage :: "chat_id \<Rightarrow> app_user \<Rightarrow> nat \<Rightarrow> string \<Rightarrow> string \<Rightarrow> message" where
  "tempMessage selected u nowMs nowIso txt =
     \<lparr>msg_id = tempIdOf nowMs, chatId = selected, senderId = uid u,
      sender = \<lparr>sender_id = uid u, firstName = user_firstName u, lastName = user_lastName u\<rparr>,
      content = Some txt, media = None, editedAt = None, deletedFor = [],
      timestamp = nowIso, status = sending, deliveredAt = None,
      isNew = None, isDeleting = None, isEditing = None\<rparr>"

text \<open>\<open>setMessages((prev) => [...prev, tempMessage])\<close>.\<close>

definition sendOptimistic :: "message \<Rightarrow> message list \<Rightarrow> message list" where
  "sendOptimistic tmp prev = prev @ [tmp]"

text \<open>The updater of the 500 ms timeout: \<open>_isNew: false\<close> on the temporary id.\<close>

definition clearIsNew :: "message_id \<Rightarrow> message list \<Rightarrow> message list" where
  "clearIsNew tempId prev = map (\<lambda>m. if msg_id m = tempId then m\<lparr>isNew := Some False\<rparr> else m) prev"

text \<open>
  The updater of both failure branches (media upload, send):
  \<open>prev.filter((m) => m.id !== tempId)\<close>.
\<close>

definition sendRollback :: "message_id \<Rightarrow> message list \<Rightarrow> message list" where
  "sendRollback tempId prev = filter (\<lambda>m. msg_id m \<noteq> tempId) prev"

text \<open>
  The record that replaces the temporary one: \<open>{ ...response.data, sender: {...},
  status: 'sent', deliveredAt: new Date().toISOString() }\<close>.
\<close>

definition confirmedMessage :: "app_user \<Rightarrow> string \<Rightarrow> message_response \<Rightarrow> message" where
  "confirmedMessage u nowIso r =
     (spreadResponse r
        \<lparr>sender_id = uid u, firstName = user_firstName u, lastName = user_lastName u\<rparr>)
       \<lparr>status := sent, deliveredAt := Some nowIso\<rparr>"

definition sendCommit :: "app_user \<Rightarrow> string \<Rightarrow> message_response \<Rightarrow> message_id \<Rightarrow> message list \<Rightarrow> message list" where
  "sendCommit u nowIso r tempId prev =
     map (\<lambda>m. if msg_id m = tempId then confirmedMessage u nowIso r else m) prev"

text \<open>
  The handler up to its first \<open>await\<close>, on the message list of that moment: nothing
  without a user or a selected chat, else the temporary record is appended. \<open>nowMs\<close> and
  \<open>nowIso\<close> are the clock at the call.
\<close>

definition handleSendMessageStart ::
  "chat_id option \<Rightarrow> app_user option \<Rightarrow> nat \<Rightarrow> string \<Rightarrow> string
     \<Rightarrow> message list \<Rightarrow> message list" where
  "handleSendMessageStart selected user nowMs nowIso txt prev =
     (case user of
        None \<Rightarrow> prev
      | Some u \<Rightarrow>
          if \<not> truthy selected then prev
          else sendOptimistic (tempMessage (the selected) u nowMs nowIso txt) prev)"

text \<open>
  The handler after its awaited calls, with their outcomes given: \<open>upload\<close> is \<open>None\<close>
  when no file is attached, \<open>sendResult\<close> is the outcome of \<open>api.messages.send\<close> (not
  reached when the upload fails), \<open>doneIso\<close> the clock then. The one updater that runs is
  applied to \<open>prev\<close>, the message list as it is when the reply arrives, which other
  handlers may have changed since the call. \<open>tempId\<close> is the id the call made. The updater
  of the chat list that follows a success does not touch the messages.
\<close>

definition handleSendMessageSettled ::
  "app_user \<Rightarrow> message_id \<Rightarrow> (api_error + media_info) option \<Rightarrow> api_error + message_response
     \<Rightarrow> string \<Rightarrow> message list \<Rightarrow> message list" where
  "handleSendMessageSettled u tempId upload sendResult doneIso prev =
     (case upload of
        Some (Inl err) \<Rightarrow> sendRollback tempId prev
      | _ \<Rightarrow>
          (case sendResult of
             Inl err \<Rightarrow> sendRollback tempId prev
           | Inr r \<Rightarrow> sendCommit u doneIso r tempId prev))"

section \<open>Message paging (\<open>loadMessages\<close>, \<open>handleChatSelect\<close>, \<open>handleLoadMoreMessages\<close>, \<open>handleScroll\<close>)\<close>

text \<open>
  The hooks the paging code reads and writes, and \<open>shouldAutoScroll\<close> of the message
  window.
\<close>

record page_state =
  selectedChatId :: "chat_id option"
  messages :: "message list"
  messagesLoading :: bool
  hasMoreMessages :: bool
  messagesOffset :: nat
  shouldAutoScroll :: bool

text \<open>The argument of \<open>api.messages.list\<close>.\<close>

record fetch_request =
  req_chatId :: chat_id
  req_limit :: nat
  req_offset :: nat

text \<open>
  \<open>loadMessages\<close> up to its \<open>await\<close>: the loading flag is set and the request goes out.
\<close>

definition loadMessagesStart :: "chat_id \<Rightarrow> nat \<Rightarrow> page_state \<Rightarrow> page_state \<times> fetch_request list" where
  "loadMessagesStart cid off st =
     (st\<lparr>messagesLoading := True\<rparr>, [\<lparr>req_chatId = cid, req_limit = 50, req_offset = off\<rparr>])"

text \<open>
  \<open>loadMessages\<close> after a fulfilled \<open>await\<close>, applied to the state at that moment:
  \<open>page\<close> is \<open>response.messages\<close>, \<open>off\<close> the offset the call was made with. The
  \<open>finally\<close> block clears the loading flag. The chat of the request is not consulted.
\<close>

definition loadMessagesResolved :: "fetch_request \<Rightarrow> message list \<Rightarrow> page_state \<Rightarrow> page_state" where
  "loadMessagesResolved rq page st =
     st\<lparr>messages := (if req_offset rq = 0 then rev page else rev page @ messages st),
        hasMoreMessages := (length page = 50),
        messagesOffset := req_offset rq + length page,
        messagesLoading := False\<rparr>"

text \<open>\<open>loadMessages\<close> after a rejected \<open>await\<close>: a toast, and the \<open>finally\<close> block.\<close>

definition loadMessagesRejected :: "fetch_request \<Rightarrow> page_state \<Rightarrow> page_state" where
  "loadMessagesRejected rq st = st\<lparr>messagesLoading := False\<rparr>"

text \<open>
  \<open>handleChatSelect\<close> up to the first \<open>await\<close>. (It also empties the typing set, which is
  embedded with the typing handler below.)
\<close>

definition handleChatSelect :: "app_user option \<Rightarrow> chat_id \<Rightarrow> page_state \<Rightarrow> page_state \<times> fetch_request list" where
  "handleChatSelect user cid st =
     (case user of
        None \<Rightarrow> (st, [])
      | Some u \<Rightarrow>
          loadMessagesStart cid 0 (st\<lparr>selectedChatId := Some cid, messages := [], messagesOffset := 0\<rparr>))"


text \<open>The scroll container's metrics, in pixels; \<open>None\<close> is a null \<open>ref\<close>.\<close>

record scroll_metrics =
  scrollTop :: int
  scrollHeight :: int
  clientHeight :: int


text \<open>
  A callback is the one its render made: between a state update and the next render the
  load-more handler still reads \<open>selectedChatId\<close>, \<open>hasMoreMessages\<close>,
  \<open>messagesLoading\<close> and \<open>messagesOffset\<close> of the state \<open>rendered\<close> it was made in, and
  the scroll handler the \<open>hasMore\<close> and \<open>loading\<close> props of that render, while their
  state updates reach the present state \<open>st\<close>. \<open>handleLoadMoreMessages\<close> and
  \<open>handleScroll\<close> above are these callbacks when the render is current.
\<close>

definition loadMoreCallback :: "page_state \<Rightarrow> page_state \<Rightarrow> page_state \<times> fetch_request list" where
  "loadMoreCallback rendered st =
     (if truthy (selectedChatId rendered) \<and> hasMoreMessages rendered \<and> \<not> messagesLoading rendered
      then loadMessagesStart (the (selectedChatId rendered)) (messagesOffset rendered) st
      else (st, []))"

definition scrollCallback ::
  "scroll_metrics option \<Rightarrow> page_state \<Rightarrow> page_state \<Rightarrow> page_state \<times> fetch_request list" where
  "scrollCallback el rendered st =
     (case el of
        None \<Rightarrow> (st, [])
      | Some sm \<Rightarrow>
          (let isNearBottom = (scrollHeight sm - scrollTop sm - clientHeight sm < 100);
               st1 = st\<lparr>shouldAutoScroll := isNearBottom\<rparr>
           in if scrollTop sm < 100 \<and> hasMoreMessages rendered \<and> \<not> messagesLoading rendered
              then loadMoreCallback rendered st1
              else (st1, [])))"

text \<open>
  The page as a transition system. The second component is the list of requests that went
  out and have not completed: the environment's bookkeeping, which no handler reads. A
  load-more call and a scroll event come with the state of the render whose callback runs.
\<close>

datatype page_event =
    ChatSelect chat_id
  | LoadMore page_state
  | Scroll page_state "scroll_metrics option"
  | FetchResolved fetch_request "message list"
  | FetchRejected fetch_request

fun pageStep :: "app_user option \<Rightarrow> page_event \<Rightarrow> page_state \<times> fetch_request list \<Rightarrow> page_state \<times> fetch_request list" where
  "pageStep user (ChatSelect cid) (st, pending) =
     (let (st', out) = handleChatSelect user cid st in (st', pending @ out))"
| "pageStep user (LoadMore rendered) (st, pending) =
     (let (st', out) = loadMoreCallback rendered st in (st', pending @ out))"
| "pageStep user (Scroll rendered el) (st, pending) =
     (let (st', out) = scrollCallback el rendered st in (st', pending @ out))"
| "pageStep user (FetchResolved rq page) (st, pending) =
     (if rq \<in> set pending then (loadMessagesResolved rq page st, remove1 rq pending)
      else (st, pending))"
| "pageStep user (FetchRejected rq) (st, pending) =
     (if rq \<in> set pending then (loadMessagesRejected rq st, remove1 rq pending)
      else (st, pending))"

definition pageRun :: "app_user option \<Rightarrow> page_event list \<Rightarrow> page_state \<times> fetch_request list \<Rightarrow> page_state \<times> fetch_request list" where
  "pageRun user evs s = foldl (\<lambda>s e. pageStep user e s) s evs"





definition initialPage :: page_state where
  "initialPage =
     \<lparr>selectedChatId = None, messages = [], messagesLoading = False, hasMoreMessages = False,
      messagesOffset = 0, shouldAutoScroll = True\<rparr>"

section \<open>Typing signals (\<open>onTyping\<close> of MainChat.tsx)\<close>

record typing_event =
  te_chatId :: chat_id
  te_userId :: user_id
  te_isTyping :: bool

text \<open>
  Time is the environment's clock in milliseconds. A pending timer of \<open>setTimeout\<close> is
  its handle, the user its callback closes over, and the time it is due. Handles are
  positive and never reused, so \<open>if (existingTimeout)\<close> is the test that the map of
  \<open>typingTimeoutRef\<close> has an entry.
\<close>

record timer =
  t_handle :: nat
  t_user :: user_id
  t_deadline :: nat

record typing_state =
  typingUsers :: "user_id set"
  typingTimeoutRef :: "user_id \<rightharpoonup> nat"
  timers :: "timer list"
  lastHandle :: nat
  clock :: nat

definition clearTimeout :: "nat \<Rightarrow> typing_state \<Rightarrow> typing_state" where
  "clearTimeout h st = st\<lparr>timers := filter (\<lambda>x. t_handle x \<noteq> h) (timers st)\<rparr>"

text \<open>\<open>setTimeout(callback, delay)\<close> for the callback of user \<open>u\<close>: the new handle and state.\<close>

definition setTimeoutFor :: "user_id \<Rightarrow> nat \<Rightarrow> typing_state \<Rightarrow> nat \<times> typing_state" where
  "setTimeoutFor u delay st =
     (let h = Suc (lastHandle st)
      in (h, st\<lparr>timers := timers st @ [\<lparr>t_handle = h, t_user = u, t_deadline = clock st + delay\<rparr>],
                lastHandle := h\<rparr>))"

text \<open>
  The handler. \<open>selected\<close> is the \<open>selectedChatId\<close> its effect closed over; an event of
  any other chat returns at once.
\<close>

definition onTyping :: "chat_id option \<Rightarrow> typing_event \<Rightarrow> typing_state \<Rightarrow> typing_state" where
  "onTyping selected ev st =
     (if Some (te_chatId ev) \<noteq> selected then st
      else if te_isTyping ev then
        (let st1 = st\<lparr>typingUsers := insert (te_userId ev) (typingUsers st)\<rparr>;
             st2 = (case typingTimeoutRef st1 (te_userId ev) of
                      Some existingTimeout \<Rightarrow> clearTimeout existingTimeout st1
                    | None \<Rightarrow> st1);
             (h, st3) = setTimeoutFor (te_userId ev) 5000 st2
         in st3\<lparr>typingTimeoutRef := (typingTimeoutRef st3)(te_userId ev \<mapsto> h)\<rparr>)
      else
        (let st1 = st\<lparr>typingUsers := typingUsers st - {te_userId ev}\<rparr>
         in case typingTimeoutRef st1 (te_userId ev) of
              Some existingTimeout \<Rightarrow>
                (clearTimeout existingTimeout st1)
                  \<lparr>typingTimeoutRef := (typingTimeoutRef st1)(te_userId ev := None)\<rparr>
            | None \<Rightarrow> st1))"

text \<open>
  A timer that is due leaves the pending ones and runs its callback: the user leaves the
  typing set and the map.
\<close>

definition fireTimer :: "timer \<Rightarrow> typing_state \<Rightarrow> typing_state" where
  "fireTimer x st =
     st\<lparr>timers := filter (\<lambda>y. t_handle y \<noteq> t_handle x) (timers st),
        typingUsers := typingUsers st - {t_user x},
        typingTimeoutRef := (typingTimeoutRef st)(t_user x := None)\<rparr>"

text \<open>The clock moves to \<open>t\<close>: every pending timer due by then has fired.\<close>

definition advanceTo :: "nat \<Rightarrow> typing_state \<Rightarrow> typing_state" where
  "advanceTo t st =
     (if t < clock st then st
      else (foldl (\<lambda>s x. fireTimer x s) st (filter (\<lambda>x. t_deadline x \<le> t) (timers st)))
             \<lparr>clock := t\<rparr>)"

text \<open>A run of typing events, each with the time it arrives at.\<close>

fun typingRun :: "chat_id option \<Rightarrow> (nat \<times> typing_event) list \<Rightarrow> typing_state \<Rightarrow> typing_state" where
  "typingRun selected [] st = st"
| "typingRun selected ((t, ev) # rest) st = typingRun selected rest (onTyping selected ev (advanceTo t st))"

definition timersOf :: "user_id \<Rightarrow> typing_state \<Rightarrow> timer list" where
  "timersOf u st = filter (\<lambda>x. t_user x = u) (timers st)"

text \<open>
  The pending timers are exactly the entries of the map: every pending timer is the one
  the map holds for its user and is not yet due, every entry of the map is a pending
  timer, and no handle is pending twice.
\<close>

definition timersMatchRef :: "typing_state \<Rightarrow> bool" where
  "timersMatchRef st =
     (distinct (map t_handle (timers st))
      \<and> (\<forall>x \<in> set (timers st).
            typingTimeoutRef st (t_user x) = Some (t_handle x)
            \<and> t_handle x \<le> lastHandle st \<and> clock st < t_deadline x)
      \<and> (\<forall>u h. typingTimeoutRef st u = Some h \<longrightarrow> h \<in> t_handle ` set (timersOf u st)))"

text \<open>
  The signal of user \<open>u\<close> whose timer \<open>h\<close> is due at \<open>d\<close>: before \<open>d\<close> the user is in
  the typing set and that timer is the one pending timer of the user; from \<open>d\<close> on the
  user is out of the set and has no timer and no entry in the map.
\<close>

definition signalState :: "user_id \<Rightarrow> nat \<Rightarrow> nat \<Rightarrow> typing_state \<Rightarrow> bool" where
  "signalState u h d s =
     (if clock s < d
      then u \<in> typingUsers s
           \<and> timersOf u s = [\<lparr>t_handle = h, t_user = u, t_deadline = d\<rparr>]
           \<and> typingTimeoutRef s u = Some h
      else u \<notin> typingUsers s \<and> timersOf u s = [] \<and> typingTimeoutRef s u = None)"

definition initialTyping :: typing_state where
  "initialTyping =
     \<lparr>typingUsers = {}, typingTimeoutRef = Map.empty, timers = [], lastHandle = 0, clock = 0\<rparr>"

section \<open>Server routes (server/src/routes/chats.ts)\<close>

datatype http_error = BadRequestError string | ForbiddenError string | NotFoundError string

text \<open>
  The collection of chats is the list of its documents. The \<open>_id\<close> of a document and
  its participants are object ids, kept here by their canonical strings (24 lower-case
  hexadecimal digits). \<open>castId\<close> is the cast of a string to the object id it denotes,
  which the database layer applies to the string ids it is given.
\<close>

text \<open>\<open>Chat.findById(id)\<close>: the document whose \<open>_id\<close> is the object id of the string.\<close>

definition findById :: "(string \<Rightarrow> chat_id) \<Rightarrow> string \<Rightarrow> chat list \<Rightarrow> chat option" where
  "findById castId cid db = find (\<lambda>c. chat_id c = castId cid) db"

text \<open>\<open>Chat.findByIdAndUpdate\<close>: the update is applied to the document found.\<close>

fun findByIdAndUpdate :: "(string \<Rightarrow> chat_id) \<Rightarrow> string \<Rightarrow> (chat \<Rightarrow> chat) \<Rightarrow> chat list \<Rightarrow> chat list" where
  "findByIdAndUpdate castId cid f [] = []"
| "findByIdAndUpdate castId cid f (c # cs) =
     (if chat_id c = castId cid then f c # cs else c # findByIdAndUpdate castId cid f cs)"

text \<open>
  \<open>POST /:chatId/read\<close>. \<open>isValid\<close> is \<open>Types.ObjectId.isValid\<close> of the database driver.
  The caller's id comes from the authentication and is cast by \<open>new Types.ObjectId\<close>
  for the comparison with the participants; the key of the counter is the string as
  given. The result is the response (a thrown error, or the message of the 200 reply) and
  the collection afterwards.
\<close>

definition markChatRead ::
  "(string \<Rightarrow> bool) \<Rightarrow> (string \<Rightarrow> chat_id) \<Rightarrow> chat list \<Rightarrow> string \<Rightarrow> user_id
     \<Rightarrow> (http_error + string) \<times> chat list" where
  "markChatRead isValid castId db cid currentUserId =
     (if \<not> isValid cid then (Inl (BadRequestError ''Invalid chat ID format''), db)
      else
        (case findById castId cid db of
           None \<Rightarrow> (Inl (NotFoundError ''Chat not found''), db)
         | Some c \<Rightarrow>
             if \<not> list_ex (\<lambda>participant. participant = castId currentUserId) (participants c)
             then (Inl (ForbiddenError ''You do not have access to this chat''), db)
             else (Inr ''Chat marked as read'',
                   findByIdAndUpdate castId cid
                     (\<lambda>d. d\<lparr>unreadCount := (unreadCount d)(currentUserId \<mapsto> 0)\<rparr>) db)))"

text \<open>
  The functions of the database driver are not part of this repository, so the route is
  modelled over any \<open>isValid\<close> and any cast. Where concrete ones are needed: a string
  of 24 hexadecimal digits, in either case, is a valid object id, and the id it denotes has
  the lower-case spelling as its canonical string.
\<close>

definition isHexDigit :: "char \<Rightarrow> bool" where
  "isHexDigit ch = (ch \<in> set ''0123456789abcdefABCDEF'')"

definition isObjectIdString :: "string \<Rightarrow> bool" where
  "isObjectIdString s = (length s = 24 \<and> list_all isHexDigit s)"

definition lowerHex :: "char \<Rightarrow> char" where
  "lowerHex ch =
     (if ch = CHR ''A'' then CHR ''a'' else if ch = CHR ''B'' then CHR ''b''
      else if ch = CHR ''C'' then CHR ''c'' else if ch = CHR ''D'' then CHR ''d''
      else if ch = CHR ''E'' then CHR ''e'' else if ch = CHR ''F'' then CHR ''f''
      else ch)"

definition objectIdOf :: "string \<Rightarrow> chat_id" where
  "objectIdOf s = map lowerHex s"

text \<open>
  A JavaScript number, as \<open>Number(raw)\<close> returns it; \<open>Number.isInteger\<close> holds of the
  finite numbers without a fractional part.
\<close>

datatype jsnumber = JNaN | JInfinity bool | JNum rat

fun isInteger :: "jsnumber \<Rightarrow> bool" where
  "isInteger (JNum q) = (of_int \<lfloor>q\<rfloor> = q)"
| "isInteger _ = False"

fun jsLess :: "jsnumber \<Rightarrow> rat \<Rightarrow> bool" where
  "jsLess (JNum q) b = (q < b)"
| "jsLess (JInfinity positive) b = (\<not> positive)"
| "jsLess JNaN b = False"

fun jsGreater :: "jsnumber \<Rightarrow> rat \<Rightarrow> bool" where
  "jsGreater (JNum q) b = (q > b)"
| "jsGreater (JInfinity positive) b = positive"
| "jsGreater JNaN b = False"

fun intOf :: "jsnumber \<Rightarrow> int" where
  "intOf (JNum q) = \<lfloor>q\<rfloor>"
| "intOf _ = 0"

text \<open>
  The two parameter checks of \<open>GET /\<close>; \<open>toNumber\<close> is \<open>Number\<close> on the raw query value,
  \<open>None\<close> an omitted parameter.
\<close>

definition parseLimit :: "('raw \<Rightarrow> jsnumber) \<Rightarrow> 'raw option \<Rightarrow> http_error + int" where
  "parseLimit toNumber limitRaw =
     (case limitRaw of
        None \<Rightarrow> Inr 50
      | Some raw \<Rightarrow>
          (let parsedLimit = toNumber raw
           in if \<not> isInteger parsedLimit \<or> jsLess parsedLimit 1 \<or> jsGreater parsedLimit 100
              then Inl (BadRequestError ''limit must be an integer between 1 and 100'')
              else Inr (intOf parsedLimit)))"

definition parseOffset :: "('raw \<Rightarrow> jsnumber) \<Rightarrow> 'raw option \<Rightarrow> http_error + int" where
  "parseOffset toNumber offsetRaw =
     (case offsetRaw of
        None \<Rightarrow> Inr 0
      | Some raw \<Rightarrow>
          (let parsedOffset = toNumber raw
           in if \<not> isInteger parsedOffset \<or> jsLess parsedOffset 0
              then Inl (BadRequestError ''offset must be a non-negative integer'')
              else Inr (intOf parsedOffset)))"

record chat_list_response =
  res_message :: string
  res_total :: nat
  res_count :: nat
  res_limit :: int
  res_offset :: int
  res_chats :: "chat list"

text \<open>
  One chat of the response. Its \<open>unreadCount\<close> is \<open>unreadCountObj\<close>, the empty object
  filled with every entry of the stored map.
\<close>

definition chatListEntry :: "chat \<Rightarrow> chat" where
  "chatListEntry c =
     \<lparr>chat_id = chat_id c, participants = participants c, chat_type = chat_type c,
      lastMessage = lastMessage c,
      unreadCount = (\<lambda>key. unreadCount c key),
      createdAt = createdAt c, updatedAt = updatedAt c\<rparr>"

text \<open>
  \<open>GET /\<close>, the chat list. \<open>sortChats\<close> is the order of the query
  (\<open>lastMessage.timestamp\<close>, then \<open>updatedAt\<close>, both descending). The collection is read
  only after both parameters have passed.
\<close>

definition getChats ::
  "('raw \<Rightarrow> jsnumber) \<Rightarrow> (chat list \<Rightarrow> chat list) \<Rightarrow> chat list \<Rightarrow> user_id
     \<Rightarrow> 'raw option \<Rightarrow> 'raw option \<Rightarrow> http_error + chat_list_response" where
  "getChats toNumber sortChats db currentUserId limitRaw offsetRaw =
     (case parseLimit toNumber limitRaw of
        Inl err \<Rightarrow> Inl err
      | Inr limit \<Rightarrow>
          (case parseOffset toNumber offsetRaw of
             Inl err \<Rightarrow> Inl err
           | Inr offset \<Rightarrow>
               (let mine = filter (\<lambda>c. currentUserId \<in> set (participants c)) db;
                    found = take (nat limit) (drop (nat offset) (sortChats mine))
                in Inr \<lparr>res_message = ''Chats retrieved'', res_total = length mine,
                         res_count = length found, res_limit = limit, res_offset = offset,
                         res_chats = map chatListEntry found\<rparr>)))"

text \<open>
  \<open>getUnreadCount\<close>, the helper of the chat-details route \<open>GET /:chatId\<close>: on a map and
  on a plain object alike, the entry of the user or \<open>0\<close>.
\<close>

definition getUnreadCount :: "(user_id \<rightharpoonup> int) \<Rightarrow> user_id \<Rightarrow> int" where
  "getUnreadCount counters userId = orZero (counters userId)"

definition isBadRequest :: "http_error + 'a \<Rightarrow> bool" where
  "isBadRequest r = (case r of Inl (BadRequestError msg) \<Rightarrow> True | _ \<Rightarrow> False)"

text \<open>Concrete data used in the evaluations below.\<close>

definition alice :: app_user where
  "alice = \<lparr>uid = ''alice'', user_firstName = ''Alice'', user_lastName = ''A''\<rparr>"

definition mkMessage :: "message_id \<Rightarrow> chat_id \<Rightarrow> user_id \<Rightarrow> string \<Rightarrow> message" where
  "mkMessage i c s txt =
     \<lparr>msg_id = i, chatId = c, senderId = s,
      sender = \<lparr>sender_id = s, firstName = '''', lastName = ''''\<rparr>,
      content = Some txt, media = None, editedAt = None, deletedFor = [],
      timestamp = ''2024-01-15T10:30:00.000Z'', status = sent,
      deliveredAt = Some ''2024-01-15T10:30:01.000Z'',
      isNew = None, isDeleting = None, isEditing = None\<rparr>"

definition mkResponse :: "message_id \<Rightarrow> chat_id \<Rightarrow> user_id \<Rightarrow> string \<Rightarrow> message_response" where
  "mkResponse i c s txt =
     \<lparr>mr_id = i, mr_chatId = c, mr_senderId = s, mr_sender = None,
      mr_content = Some txt, mr_media = None, mr_editedAt = None, mr_deletedFor = [],
      mr_timestamp = ''2024-01-15T10:30:00.000Z'', mr_status = sent, mr_deliveredAt = None\<rparr>"

definition mkChat :: "chat_id \<Rightarrow> user_id list \<Rightarrow> (user_id \<rightharpoonup> int) \<Rightarrow> chat" where
  "mkChat c ps counters =
     \<lparr>chat_id = c, participants = ps, chat_type = ''private'', lastMessage = None,
      unreadCount = counters, createdAt = ''2024-01-15T10:00:00.000Z'',
      updatedAt = ''2024-01-15T10:00:00.000Z''\<rparr>"




definition aliceId :: user_id where
  "aliceId = ''507f1f77bcf86cd799439011''"

definition bobId :: user_id where
  "bobId = ''507f1f77bcf86cd799439012''"

definition carolId :: user_id where
  "carolId = ''507f1f77bcf86cd799439014''"

definition chatOneId :: chat_id where
  "chatOneId = ''507f1f77bcf86cd799439013''"

definition missingChatId :: chat_id where
  "missingChatId = ''507f1f77bcf86cd799439099''"

definition chatOne :: chat where
  "chatOne = mkChat chatOneId [aliceId, bobId] [aliceId \<mapsto> 3, bobId \<mapsto> 1]"

text \<open>\<open>Number\<close> on a few query strings.\<close>

definition sampleNumber :: "string \<Rightarrow> jsnumber" where
  "sampleNumber raw =
     (if raw = ''20'' then JNum 20
      else if raw = ''0'' then JNum 0
      else if raw = ''101'' then JNum 101
      else if raw = ''-1'' then JNum (- 1)
      else JNaN)"

text \<open>The id of \<open>chatOne\<close> spelled in upper case.\<close>

definition chatOneIdUpper :: string where
  "chatOneIdUpper = ''507F1F77BCF86CD799439013''"




section \<open>Failed edits\<close>

text \<open>
  C1 (the code at the failing input). The list holds one message \<open>m1\<close> of the user with
  content \<open>old\<close>; the user edits it to \<open>new\<close> and the server call is rejected. The claim
  says the list is again the pre-edit list. The handler's error branch is the identity
  updater, so the list stays the optimistically updated one: the content is \<open>new\<close>, the
  edit timestamp is set, and the result differs from the pre-edit list.
\<close>

theorem C1_failed_edit_keeps_optimistic_content:
  "handleEditMessage (Some alice) ''2024-01-15T10:31:00.000Z'' (Inl (ApiError ''EditTimeout''))
       ''m1'' ''new'' ''c1'' [mkMessage ''m1'' ''c1'' ''alice'' ''old'']
     = [(mkMessage ''m1'' ''c1'' ''alice'' ''old'')
          \<lparr>content := Some ''new'', editedAt := Some ''2024-01-15T10:31:00.000Z'',
           isEditing := Some False\<rparr>]
   \<and> handleEditMessage (Some alice) ''2024-01-15T10:31:00.000Z'' (Inl (ApiError ''EditTimeout''))
       ''m1'' ''new'' ''c1'' [mkMessage ''m1'' ''c1'' ''alice'' ''old'']
     \<noteq> [mkMessage ''m1'' ''c1'' ''alice'' ''old'']
   \<and> handleEditMessage (Some alice) ''2024-01-15T10:31:00.000Z'' (Inl (ApiError ''EditTimeout''))
       ''m1'' ''new'' ''c1'' [mkMessage ''m1'' ''c1'' ''alice'' ''old'']
     = editOptimistic ''2024-01-15T10:31:00.000Z'' ''m1'' ''new'' [mkMessage ''m1'' ''c1'' ''alice'' ''old'']"
  by (simp add: handleEditMessage_def editOptimistic_def editRollback_def mkMessage_def alice_def)

section \<open>Unread counters on an inbound message\<close>

subsection \<open>\<open>findIndex\<close> and the move to the head of the list\<close>

lemma findIndex_split:
  "0 \<le> findIndex P xs \<Longrightarrow>
     nat (findIndex P xs) < length xs \<and> P (xs ! nat (findIndex P xs))
     \<and> (\<forall>x \<in> set (take (nat (findIndex P xs)) xs). \<not> P x)"
proof (induction xs)
  case Nil
  then show ?case by simp
next
  case (Cons x xs)
  show ?case
  proof (cases "P x")
    case True
    then show ?thesis by simp
  next
    case False
    with Cons.prems have nonneg: "0 \<le> findIndex P xs"
      by (simp add: Let_def split: if_splits)
    then have eq: "findIndex P (x # xs) = findIndex P xs + 1"
      using False by (simp add: Let_def)
    have n: "nat (findIndex P xs + 1) = Suc (nat (findIndex P xs))"
      using nonneg by simp
    from Cons.IH[OF nonneg] False show ?thesis
      unfolding eq n by simp
  qed
qed

lemma find_append_split:
  "find Q (xs @ ys) = (case find Q xs of None \<Rightarrow> find Q ys | Some x \<Rightarrow> Some x)"
  by (induction xs) auto

lemma find_none_iff_set: "(\<forall>x \<in> set xs. \<not> Q x) \<Longrightarrow> find Q xs = None"
  by (induction xs) auto

lemma find_map_chat:
  "(\<And>c. Q (f c) = Q c) \<Longrightarrow> find Q (map f xs) = map_option f (find Q xs)"
  by (induction xs) auto

lemma bumpChat_id: "chat_id (bumpChat me sel r c) = chat_id c"
  by (simp add: bumpChat_def Let_def)

text \<open>Moving a chat to the head does not change which chat an id finds.\<close>

lemma moveChatToFront_cases:
  "moveChatToFront cid xs = xs
   \<or> (\<exists>pre y post. xs = pre @ y # post \<and> chat_id y = cid
        \<and> (\<forall>x \<in> set pre. chat_id x \<noteq> cid) \<and> moveChatToFront cid xs = y # pre @ post)"
proof (cases "findIndex (\<lambda>c. chat_id c = cid) xs \<le> 0")
  case True
  then have "moveChatToFront cid xs = xs"
    by (simp add: moveChatToFront_def Let_def)
  then show ?thesis ..
next
  case False
  define i where "i = nat (findIndex (\<lambda>c. chat_id c = cid) xs)"
  from False have pos: "0 \<le> findIndex (\<lambda>c. chat_id c = cid) xs" by simp
  from findIndex_split[OF pos]
  have i: "i < length xs" "chat_id (xs ! i) = cid" "\<forall>x \<in> set (take i xs). chat_id x \<noteq> cid"
    unfolding i_def by blast+
  have split: "xs = take i xs @ (xs ! i) # drop (Suc i) xs"
    using i(1) by (rule id_take_nth_drop)
  have mv: "moveChatToFront cid xs = (xs ! i) # take i xs @ drop (Suc i) xs"
    unfolding i_def using False by (simp add: moveChatToFront_def Let_def)
  have "\<exists>pre y post. xs = pre @ y # post \<and> chat_id y = cid
        \<and> (\<forall>x \<in> set pre. chat_id x \<noteq> cid) \<and> moveChatToFront cid xs = y # pre @ post"
    apply (rule exI[of _ "take i xs"])
    apply (rule exI[of _ "xs ! i"])
    apply (rule exI[of _ "drop (Suc i) xs"])
    apply (intro conjI)
       apply (rule split)
      apply (rule i(2))
     apply (rule i(3))
    apply (rule mv)
    done
  then show ?thesis ..
qed

lemma findChat_moveChatToFront: "findChat k (moveChatToFront cid xs) = findChat k xs"
  using moveChatToFront_cases[of cid xs]
proof
  assume "moveChatToFront cid xs = xs"
  then show ?thesis by simp
next
  assume "\<exists>pre y post. xs = pre @ y # post \<and> chat_id y = cid
        \<and> (\<forall>x \<in> set pre. chat_id x \<noteq> cid) \<and> moveChatToFront cid xs = y # pre @ post"
  then obtain pre y post where
    xs: "xs = pre @ y # post" and y: "chat_id y = cid"
    and pre: "\<forall>x \<in> set pre. chat_id x \<noteq> cid" and mv: "moveChatToFront cid xs = y # pre @ post"
    by blast
  show ?thesis
  proof (cases "k = cid")
    case True
    have "find (\<lambda>c. chat_id c = cid) pre = None"
      using pre by (intro find_none_iff_set) simp
    then show ?thesis
      unfolding findChat_def mv unfolding xs
      using True y by (simp add: find_append_split)
  next
    case False
    then have "chat_id y \<noteq> k"
      using y by simp
    then show ?thesis
      unfolding findChat_def mv unfolding xs
      by (simp add: find_append_split split: option.splits)
  qed
qed

lemma set_moveChatToFront: "set (moveChatToFront cid xs) = set xs"
proof -
  from moveChatToFront_cases[of cid xs] consider
    "moveChatToFront cid xs = xs"
    | pre y post where "xs = pre @ y # post" "moveChatToFront cid xs = y # pre @ post"
    by blast
  then show ?thesis
  proof cases
    case 1
    then show ?thesis by simp
  next
    case 2
    have "set (y # pre @ post) = set (pre @ y # post)" by auto
    then show ?thesis unfolding 2(2) using 2(1) by simp
  qed
qed

lemma length_moveChatToFront: "length (moveChatToFront cid xs) = length xs"
proof -
  from moveChatToFront_cases[of cid xs] consider
    "moveChatToFront cid xs = xs"
    | pre y post where "xs = pre @ y # post" "moveChatToFront cid xs = y # pre @ post"
    by blast
  then show ?thesis
  proof cases
    case 1
    then show ?thesis by simp
  next
    case 2
    have "length (y # pre @ post) = length (pre @ y # post)" by simp
    then show ?thesis unfolding 2(2) using 2(1) by simp
  qed
qed

lemma orZero_id: "orZero (Some v) = v" "orZero None = 0"
  by (simp_all add: orZero_def)

lemma bumpChat_counter_iff:
  "(unreadOf me (bumpChat me sel r c) = unreadOf me c + 1)
     = (chat_id c = mr_chatId r \<and> mr_senderId r \<noteq> me \<and> Some (mr_chatId r) \<noteq> sel)"
  by (simp add: bumpChat_def unreadOf_def Let_def orZero_id)

lemma bumpChat_nonneg:
  assumes "countersNonNegative c"
  shows "countersNonNegative (bumpChat me sel r c)"
proof -
  have "0 \<le> orZero (unreadCount c me)"
    using assms by (cases "unreadCount c me") (auto simp: countersNonNegative_def orZero_def)
  then show ?thesis
    using assms by (auto simp: countersNonNegative_def bumpChat_def Let_def)
qed

text \<open>
  C3. On a message-created event the chat list becomes the list of the chats updated by
  \<open>bumpChat\<close>, the chat of the message moved to the head: the lookup of every chat id
  finds the updated chat that it found before, and the list has the same chats otherwise.
  For every chat \<open>c\<close>, the counter of the current user goes up by exactly 1 if and only
  if \<open>c\<close> is the chat of the event, the sender is not the current user and that chat is
  not the selected one; then the counter is the old one (0 when absent) plus 1. In every
  other case the whole counter map of \<open>c\<close> is unchanged; the counters of the other users
  never change; and counters that are non-negative stay so.
\<close>

theorem C3_unread_counter:
  "findChat k (mainOnNewMessage me sel r prev) = map_option (bumpChat me sel r) (findChat k prev)
   \<and> set (mainOnNewMessage me sel r prev) = bumpChat me sel r ` set prev
   \<and> length (mainOnNewMessage me sel r prev) = length prev
   \<and> ((unreadOf me (bumpChat me sel r c) = unreadOf me c + 1)
        = (chat_id c = mr_chatId r \<and> mr_senderId r \<noteq> me \<and> Some (mr_chatId r) \<noteq> sel))
   \<and> (chat_id c = mr_chatId r \<and> mr_senderId r \<noteq> me \<and> Some (mr_chatId r) \<noteq> sel
        \<longrightarrow> unreadCount (bumpChat me sel r c) = (unreadCount c)(me \<mapsto> unreadOf me c + 1))
   \<and> (\<not> (chat_id c = mr_chatId r \<and> mr_senderId r \<noteq> me \<and> Some (mr_chatId r) \<noteq> sel)
        \<longrightarrow> unreadCount (bumpChat me sel r c) = unreadCount c)
   \<and> (\<forall>u. u \<noteq> me \<longrightarrow> unreadCount (bumpChat me sel r c) u = unreadCount c u)
   \<and> (countersNonNegative c \<longrightarrow> countersNonNegative (bumpChat me sel r c))"
proof -
  have find: "findChat k (mainOnNewMessage me sel r prev)
                = map_option (bumpChat me sel r) (findChat k prev)"
    unfolding mainOnNewMessage_def findChat_moveChatToFront
    unfolding findChat_def by (rule find_map_chat) (simp add: bumpChat_id)
  have elems: "set (mainOnNewMessage me sel r prev) = bumpChat me sel r ` set prev"
    by (simp add: mainOnNewMessage_def set_moveChatToFront)
  have len: "length (mainOnNewMessage me sel r prev) = length prev"
    by (simp add: mainOnNewMessage_def length_moveChatToFront)
  have inc: "chat_id c = mr_chatId r \<and> mr_senderId r \<noteq> me \<and> Some (mr_chatId r) \<noteq> sel
        \<longrightarrow> unreadCount (bumpChat me sel r c) = (unreadCount c)(me \<mapsto> unreadOf me c + 1)"
    by (simp add: bumpChat_def unreadOf_def Let_def)
  have same: "\<not> (chat_id c = mr_chatId r \<and> mr_senderId r \<noteq> me \<and> Some (mr_chatId r) \<noteq> sel)
        \<longrightarrow> unreadCount (bumpChat me sel r c) = unreadCount c"
    by (simp add: bumpChat_def Let_def)
  have others: "\<forall>u. u \<noteq> me \<longrightarrow> unreadCount (bumpChat me sel r c) u = unreadCount c u"
    by (simp add: bumpChat_def Let_def)
  have nonneg: "countersNonNegative c \<longrightarrow> countersNonNegative (bumpChat me sel r c)"
    by (simp add: bumpChat_nonneg)
  from find elems len bumpChat_counter_iff[of me sel r c] inc same others nonneg
  show ?thesis
    by (intro conjI)
qed

theorem C3_unread_counter_witness:
  "findChat ''c1''
       (mainOnNewMessage ''alice'' (Some ''c2'') (mkResponse ''m9'' ''c1'' ''bob'' ''hi'')
          [mkChat ''c2'' [''alice'', ''carol''] Map.empty,
           mkChat ''c1'' [''alice'', ''bob''] [''alice'' \<mapsto> 2]])
     = Some (bumpChat ''alice'' (Some ''c2'') (mkResponse ''m9'' ''c1'' ''bob'' ''hi'')
               (mkChat ''c1'' [''alice'', ''bob''] [''alice'' \<mapsto> 2]))
   \<and> unreadOf ''alice''
         (bumpChat ''alice'' (Some ''c2'') (mkResponse ''m9'' ''c1'' ''bob'' ''hi'')
            (mkChat ''c1'' [''alice'', ''bob''] [''alice'' \<mapsto> 2])) = 3
   \<and> countersNonNegative
         (bumpChat ''alice'' (Some ''c2'') (mkResponse ''m9'' ''c1'' ''bob'' ''hi'')
            (mkChat ''c1'' [''alice'', ''bob''] [''alice'' \<mapsto> 2]))"
proof -
  have nonneg: "countersNonNegative (mkChat ''c1'' [''alice'', ''bob''] [''alice'' \<mapsto> 2])"
    by (simp add: countersNonNegative_def mkChat_def)
  have before: "unreadOf ''alice'' (mkChat ''c1'' [''alice'', ''bob''] [''alice'' \<mapsto> 2]) = 2"
    by (simp add: unreadOf_def orZero_def mkChat_def)
  have found: "findChat ''c1''
       [mkChat ''c2'' [''alice'', ''carol''] Map.empty,
        mkChat ''c1'' [''alice'', ''bob''] [''alice'' \<mapsto> 2]]
     = Some (mkChat ''c1'' [''alice'', ''bob''] [''alice'' \<mapsto> 2])"
    by (simp add: findChat_def mkChat_def)
  have ids: "chat_id (mkChat ''c1'' [''alice'', ''bob''] [''alice'' \<mapsto> 2])
               = mr_chatId (mkResponse ''m9'' ''c1'' ''bob'' ''hi'')"
    "mr_senderId (mkResponse ''m9'' ''c1'' ''bob'' ''hi'') \<noteq> ''alice''"
    "Some (mr_chatId (mkResponse ''m9'' ''c1'' ''bob'' ''hi'')) \<noteq> Some ''c2''"
    by (simp_all add: mkChat_def mkResponse_def)
  show ?thesis
    using C3_unread_counter[of "''c1''" "''alice''" "Some ''c2''" "mkResponse ''m9'' ''c1'' ''bob'' ''hi''"
        "[mkChat ''c2'' [''alice'', ''carol''] Map.empty,
          mkChat ''c1'' [''alice'', ''bob''] [''alice'' \<mapsto> 2]]"
        "mkChat ''c1'' [''alice'', ''bob''] [''alice'' \<mapsto> 2]"]
      nonneg before found ids
    by simp
qed

section \<open>Reconciliation of the message list with inbound events\<close>

lemma windowOnNewMessage_present:
  "mr_id r \<in> msg_id ` set prev \<Longrightarrow> windowOnNewMessage cid r prev = prev"
  by (auto simp: windowOnNewMessage_def list_ex_iff)

lemma windowOnNewMessage_result:
  "windowOnNewMessage cid r prev = prev \<or> windowOnNewMessage cid r prev = prev @ [messageWithSender r]"
  by (simp add: windowOnNewMessage_def)

lemma messageWithSender_id: "msg_id (messageWithSender r) = mr_id r"
  by (simp add: messageWithSender_def spreadResponse_def)

lemma windowOnNewMessage_idem:
  "windowOnNewMessage cid r (windowOnNewMessage cid r prev) = windowOnNewMessage cid r prev"
proof (cases "windowOnNewMessage cid r prev = prev")
  case True
  then show ?thesis by simp
next
  case False
  with windowOnNewMessage_result[of cid r prev]
  have app: "windowOnNewMessage cid r prev = prev @ [messageWithSender r]" by blast
  have "mr_id r \<in> msg_id ` set (prev @ [messageWithSender r])"
    by (simp add: messageWithSender_id)
  then show ?thesis
    unfolding app by (rule windowOnNewMessage_present)
qed

lemma windowOnMessageEdited_nth:
  assumes "cid \<noteq> []" "ee_chatId e = cid" "i < length prev"
  shows "windowOnMessageEdited cid e prev ! i
           = (if msg_id (prev ! i) = ee_messageId e
              then (prev ! i)\<lparr>content := ee_content e, editedAt := ee_editedAt e\<rparr>
              else prev ! i)"
  using assms by (simp add: windowOnMessageEdited_def)

lemma windowOnMessageEdited_length:
  "length (windowOnMessageEdited cid e prev) = length prev"
  by (simp add: windowOnMessageEdited_def)

lemma windowOnMessageDeleted_gone:
  assumes "cid \<noteq> []" "de_chatId d = cid"
  shows "de_messageId d \<notin> msg_id ` set (windowOnMessageDeleted cid d prev)"
    and "windowOnMessageDeleted cid d prev = filter (\<lambda>m. msg_id m \<noteq> de_messageId d) prev"
  using assms by (auto simp: windowOnMessageDeleted_def)

text \<open>
  C2. For the message window of an open chat \<open>cid\<close>: a message-created event whose id
  already occurs in the list leaves the list unchanged, and applying the same event twice
  is applying it once (an event of the chat with a new id is appended); a message-edited
  event of the chat replaces the content and the edit timestamp of every entry with the
  matching id and nothing else, in that entry or in any other; a message-deleted event of
  the chat leaves no entry with the matching id and keeps the others in their order.
\<close>

theorem C2_reconciliation:
  assumes "cid \<noteq> []"
  shows "(mr_id r \<in> msg_id ` set prev \<longrightarrow> windowOnNewMessage cid r prev = prev)
   \<and> windowOnNewMessage cid r (windowOnNewMessage cid r prev) = windowOnNewMessage cid r prev
   \<and> (mr_chatId r = cid \<and> mr_id r \<notin> msg_id ` set prev
        \<longrightarrow> windowOnNewMessage cid r prev = prev @ [messageWithSender r])
   \<and> (ee_chatId e = cid \<longrightarrow>
        length (windowOnMessageEdited cid e prev) = length prev
        \<and> (\<forall>i < length prev.
              (msg_id (prev ! i) = ee_messageId e \<longrightarrow>
                 windowOnMessageEdited cid e prev ! i
                   = (prev ! i)\<lparr>content := ee_content e, editedAt := ee_editedAt e\<rparr>)
              \<and> (msg_id (prev ! i) \<noteq> ee_messageId e \<longrightarrow>
                 windowOnMessageEdited cid e prev ! i = prev ! i)))
   \<and> (de_chatId d = cid \<longrightarrow>
        de_messageId d \<notin> msg_id ` set (windowOnMessageDeleted cid d prev)
        \<and> windowOnMessageDeleted cid d prev = filter (\<lambda>m. msg_id m \<noteq> de_messageId d) prev)"
proof (intro conjI impI allI)
  show "windowOnNewMessage cid r prev = prev" if "mr_id r \<in> msg_id ` set prev"
    using that by (rule windowOnNewMessage_present)
  show "windowOnNewMessage cid r (windowOnNewMessage cid r prev) = windowOnNewMessage cid r prev"
    by (rule windowOnNewMessage_idem)
  show "windowOnNewMessage cid r prev = prev @ [messageWithSender r]"
    if "mr_chatId r = cid \<and> mr_id r \<notin> msg_id ` set prev"
    using that assms by (force simp: windowOnNewMessage_def list_ex_iff)
  show "length (windowOnMessageEdited cid e prev) = length prev"
    by (rule windowOnMessageEdited_length)
  show "windowOnMessageEdited cid e prev ! i
          = (prev ! i)\<lparr>content := ee_content e, editedAt := ee_editedAt e\<rparr>"
    if "ee_chatId e = cid" "i < length prev" "msg_id (prev ! i) = ee_messageId e" for i
    using windowOnMessageEdited_nth[OF assms that(1,2)] that(3) by simp
  show "windowOnMessageEdited cid e prev ! i = prev ! i"
    if "ee_chatId e = cid" "i < length prev" "msg_id (prev ! i) \<noteq> ee_messageId e" for i
    using windowOnMessageEdited_nth[OF assms that(1,2)] that(3) by simp
  show "de_messageId d \<notin> msg_id ` set (windowOnMessageDeleted cid d prev)" if "de_chatId d = cid"
    using windowOnMessageDeleted_gone(1)[OF assms that] .
  show "windowOnMessageDeleted cid d prev = filter (\<lambda>m. msg_id m \<noteq> de_messageId d) prev"
    if "de_chatId d = cid"
    using windowOnMessageDeleted_gone(2)[OF assms that] .
qed


theorem C2_reconciliation_witness:
  "windowOnNewMessage ''c1'' (mkResponse ''m1'' ''c1'' ''bob'' ''again'')
       [mkMessage ''m1'' ''c1'' ''bob'' ''hello'', mkMessage ''m2'' ''c1'' ''alice'' ''hi'']
     = [mkMessage ''m1'' ''c1'' ''bob'' ''hello'', mkMessage ''m2'' ''c1'' ''alice'' ''hi'']
   \<and> content (windowOnMessageEdited ''c1''
         \<lparr>ee_chatId = ''c1'', ee_messageId = ''m2'', ee_content = Some ''hey'',
          ee_editedAt = Some ''2024-01-15T10:35:00.000Z''\<rparr>
         [mkMessage ''m1'' ''c1'' ''bob'' ''hello'', mkMessage ''m2'' ''c1'' ''alice'' ''hi''] ! 1)
       = Some ''hey''
   \<and> windowOnMessageEdited ''c1''
         \<lparr>ee_chatId = ''c1'', ee_messageId = ''m2'', ee_content = Some ''hey'',
          ee_editedAt = Some ''2024-01-15T10:35:00.000Z''\<rparr>
         [mkMessage ''m1'' ''c1'' ''bob'' ''hello'', mkMessage ''m2'' ''c1'' ''alice'' ''hi''] ! 0
       = mkMessage ''m1'' ''c1'' ''bob'' ''hello''
   \<and> windowOnMessageDeleted ''c1'' \<lparr>de_chatId = ''c1'', de_messageId = ''m1''\<rparr>
         [mkMessage ''m1'' ''c1'' ''bob'' ''hello'', mkMessage ''m2'' ''c1'' ''alice'' ''hi'']
       = [mkMessage ''m2'' ''c1'' ''alice'' ''hi'']"
proof -
  have ids: "msg_id (mkMessage ''m1'' ''c1'' ''bob'' ''hello'') = ''m1''"
    "msg_id (mkMessage ''m2'' ''c1'' ''alice'' ''hi'') = ''m2''"
    "mr_id (mkResponse ''m1'' ''c1'' ''bob'' ''again'') = ''m1''"
    by (simp_all add: mkMessage_def mkResponse_def)
  show ?thesis
    using C2_reconciliation[of "''c1''" "mkResponse ''m1'' ''c1'' ''bob'' ''again''"
        "[mkMessage ''m1'' ''c1'' ''bob'' ''hello'', mkMessage ''m2'' ''c1'' ''alice'' ''hi'']"
        "\<lparr>ee_chatId = ''c1'', ee_messageId = ''m2'', ee_content = Some ''hey'',
          ee_editedAt = Some ''2024-01-15T10:35:00.000Z''\<rparr>"
        "\<lparr>de_chatId = ''c1'', de_messageId = ''m1''\<rparr>"]
    by (simp add: ids)
qed

section \<open>Paging of the message history\<close>












section \<open>Responses that arrive after a chat switch\<close>

text \<open>
  C6 (the claim fails on the code). The user selects chat \<open>cA\<close>, then chat \<open>cB\<close> before
  the first response is there; then the response for \<open>cA\<close> arrives with one message of
  \<open>cA\<close>. The selected chat is \<open>cB\<close>, and the message list now shows the message of
  \<open>cA\<close> and the stored offset is 1: the stale response was applied.
\<close>

theorem C6_stale_response_applied:
  "selectedChatId (fst (pageRun (Some alice)
       [ChatSelect ''cA'', ChatSelect ''cB'',
        FetchResolved \<lparr>req_chatId = ''cA'', req_limit = 50, req_offset = 0\<rparr>
          [mkMessage ''a1'' ''cA'' ''bob'' ''for chat A'']]
       (initialPage, []))) = Some ''cB''
   \<and> messages (fst (pageRun (Some alice)
       [ChatSelect ''cA'', ChatSelect ''cB'',
        FetchResolved \<lparr>req_chatId = ''cA'', req_limit = 50, req_offset = 0\<rparr>
          [mkMessage ''a1'' ''cA'' ''bob'' ''for chat A'']]
       (initialPage, []))) = [mkMessage ''a1'' ''cA'' ''bob'' ''for chat A'']
   \<and> messagesOffset (fst (pageRun (Some alice)
       [ChatSelect ''cA'', ChatSelect ''cB'',
        FetchResolved \<lparr>req_chatId = ''cA'', req_limit = 50, req_offset = 0\<rparr>
          [mkMessage ''a1'' ''cA'' ''bob'' ''for chat A'']]
       (initialPage, []))) = 1
   \<and> snd (pageRun (Some alice)
       [ChatSelect ''cA'', ChatSelect ''cB'',
        FetchResolved \<lparr>req_chatId = ''cA'', req_limit = 50, req_offset = 0\<rparr>
          [mkMessage ''a1'' ''cA'' ''bob'' ''for chat A'']]
       (initialPage, [])) = [\<lparr>req_chatId = ''cB'', req_limit = 50, req_offset = 0\<rparr>]"
  by (simp add: pageRun_def handleChatSelect_def loadMessagesStart_def loadMessagesResolved_def
        initialPage_def)

lemma loadMessagesResolved_ignores_selection:
  "loadMessagesResolved rq page (st\<lparr>selectedChatId := other\<rparr>)
       = (loadMessagesResolved rq page st)\<lparr>selectedChatId := other\<rparr>"
  unfolding loadMessagesResolved_def by (cases st) simp

lemma pageStep_resolved:
  "rq \<in> set pending \<Longrightarrow>
        pageStep user (FetchResolved rq page) (st, pending)
          = (loadMessagesResolved rq page st, remove1 rq pending)"
  by simp

text \<open>
  C6 (as the code has it). A fulfilled response is applied to the state it finds, whatever
  chat is selected then: the chat of the request is not compared with the selected chat.
  The messages become the reversed page (before the present ones when the offset of the
  request is not 0), the stored offset the offset of the request plus the length of the
  page, and the selected chat stays. This holds in particular when the selected chat is
  not the chat of the request.
\<close>

theorem C6_response_applied_regardless:
  "messages (loadMessagesResolved rq page st)
       = (if req_offset rq = 0 then rev page else rev page @ messages st)
   \<and> messagesOffset (loadMessagesResolved rq page st) = req_offset rq + length page
   \<and> selectedChatId (loadMessagesResolved rq page st) = selectedChatId st
   \<and> loadMessagesResolved rq page (st\<lparr>selectedChatId := other\<rparr>)
       = (loadMessagesResolved rq page st)\<lparr>selectedChatId := other\<rparr>
   \<and> (rq \<in> set pending \<longrightarrow>
        pageStep user (FetchResolved rq page) (st, pending)
          = (loadMessagesResolved rq page st, remove1 rq pending))"
proof (intro conjI impI)
  show "messages (loadMessagesResolved rq page st)
       = (if req_offset rq = 0 then rev page else rev page @ messages st)"
    by (simp add: loadMessagesResolved_def)
  show "messagesOffset (loadMessagesResolved rq page st) = req_offset rq + length page"
    by (simp add: loadMessagesResolved_def)
  show "selectedChatId (loadMessagesResolved rq page st) = selectedChatId st"
    by (simp add: loadMessagesResolved_def)
  show "loadMessagesResolved rq page (st\<lparr>selectedChatId := other\<rparr>)
       = (loadMessagesResolved rq page st)\<lparr>selectedChatId := other\<rparr>"
    by (rule loadMessagesResolved_ignores_selection)
  show "pageStep user (FetchResolved rq page) (st, pending)
          = (loadMessagesResolved rq page st, remove1 rq pending)" if "rq \<in> set pending"
    using that by (rule pageStep_resolved)
qed

theorem C6_response_applied_regardless_witness:
  "messages (loadMessagesResolved \<lparr>req_chatId = ''cA'', req_limit = 50, req_offset = 0\<rparr>
       [mkMessage ''a1'' ''cA'' ''bob'' ''for chat A'']
       (initialPage\<lparr>selectedChatId := Some ''cB''\<rparr>))
     = [mkMessage ''a1'' ''cA'' ''bob'' ''for chat A'']
   \<and> selectedChatId (loadMessagesResolved \<lparr>req_chatId = ''cA'', req_limit = 50, req_offset = 0\<rparr>
       [mkMessage ''a1'' ''cA'' ''bob'' ''for chat A'']
       (initialPage\<lparr>selectedChatId := Some ''cB''\<rparr>)) = Some ''cB''"
proof -
  define rq where "rq = \<lparr>req_chatId = ''cA'', req_limit = 50, req_offset = 0\<rparr>"
  define page where "page = [mkMessage ''a1'' ''cA'' ''bob'' ''for chat A'']"
  define st where "st = initialPage\<lparr>selectedChatId := Some ''cB''\<rparr>"
  from C6_response_applied_regardless[of rq page st None "[rq]" None]
  have m: "messages (loadMessagesResolved rq page st)
             = (if req_offset rq = 0 then rev page else rev page @ messages st)"
    and s: "selectedChatId (loadMessagesResolved rq page st) = selectedChatId st"
    by blast+
  have "messages (loadMessagesResolved rq page st) = page"
    unfolding m by (simp add: rq_def page_def)
  moreover have "selectedChatId (loadMessagesResolved rq page st) = Some ''cB''"
    unfolding s by (simp add: st_def)
  ultimately show ?thesis
    unfolding rq_def page_def st_def by blast
qed

section \<open>Load-more calls and the loading flag\<close>















section \<open>Optimistic send\<close>

lemma tempMessage_fields:
  "msg_id (tempMessage selected u nowMs nowIso txt) = tempIdOf nowMs"
  "status (tempMessage selected u nowMs nowIso txt) = sending"
  "chatId (tempMessage selected u nowMs nowIso txt) = selected"
  by (simp_all add: tempMessage_def)

lemma confirmedMessage_fields:
  "msg_id (confirmedMessage u doneIso r) = mr_id r"
  "status (confirmedMessage u doneIso r) = sent"
  "deliveredAt (confirmedMessage u doneIso r) = Some doneIso"
  by (simp_all add: confirmedMessage_def spreadResponse_def)

lemma handleSendMessageStart_appends:
  "truthy selected \<Longrightarrow>
     handleSendMessageStart selected (Some u) nowMs nowIso txt prev
       = prev @ [tempMessage (the selected) u nowMs nowIso txt]"
  by (simp add: handleSendMessageStart_def sendOptimistic_def)

text \<open>The two updaters on a list that holds the id once.\<close>

lemma sendRollback_once:
  assumes "msg_id m = tempId" "tempId \<notin> msg_id ` set front" "tempId \<notin> msg_id ` set rest"
  shows "sendRollback tempId (front @ m # rest) = front @ rest"
proof -
  have "filter (\<lambda>x. msg_id x \<noteq> tempId) front = front"
    using assms(2) by (intro filter_True) auto
  moreover have "filter (\<lambda>x. msg_id x \<noteq> tempId) rest = rest"
    using assms(3) by (intro filter_True) auto
  ultimately show ?thesis
    using assms(1) by (simp add: sendRollback_def)
qed

lemma sendCommit_once:
  assumes "msg_id m = tempId" "tempId \<notin> msg_id ` set front" "tempId \<notin> msg_id ` set rest"
  shows "sendCommit u doneIso r tempId (front @ m # rest)
           = front @ confirmedMessage u doneIso r # rest"
proof -
  have "map (\<lambda>x. if msg_id x = tempId then confirmedMessage u doneIso r else x) front = front"
    using assms(2) by (intro map_idI) auto
  moreover have "map (\<lambda>x. if msg_id x = tempId then confirmedMessage u doneIso r else x) rest = rest"
    using assms(3) by (intro map_idI) auto
  ultimately show ?thesis
    using assms(1) by (simp add: sendCommit_def)
qed

text \<open>
  C5 (the claim fails on the code). The list is empty; the user sends \<open>first\<close> and, in the
  same millisecond, \<open>second\<close>: both temporary records get the id \<open>temp-\<close> and that clock.
  The send of \<open>first\<close> fails. Its rollback runs on the list of that moment and removes
  every record with the id: the pending record of \<open>second\<close> is removed too.
\<close>

theorem C5_same_millisecond_send:
  "tempIdOf 1705314600005 = ''temp-1705314600005''
   \<and> handleSendMessageStart (Some ''c1'') (Some alice) 1705314600005 ''2024-01-15T10:30:00.005Z''
         ''second''
         (handleSendMessageStart (Some ''c1'') (Some alice) 1705314600005
            ''2024-01-15T10:30:00.005Z'' ''first'' [])
       = [tempMessage ''c1'' alice 1705314600005 ''2024-01-15T10:30:00.005Z'' ''first'',
          tempMessage ''c1'' alice 1705314600005 ''2024-01-15T10:30:00.005Z'' ''second'']
   \<and> handleSendMessageSettled alice (tempIdOf 1705314600005) None
         (Inl (ApiError ''Network Error'')) ''2024-01-15T10:30:01.000Z''
         [tempMessage ''c1'' alice 1705314600005 ''2024-01-15T10:30:00.005Z'' ''first'',
          tempMessage ''c1'' alice 1705314600005 ''2024-01-15T10:30:00.005Z'' ''second'']
       = []
   \<and> handleSendMessageSettled alice (tempIdOf 1705314600005) None
         (Inl (ApiError ''Network Error'')) ''2024-01-15T10:30:01.000Z''
         [tempMessage ''c1'' alice 1705314600005 ''2024-01-15T10:30:00.005Z'' ''first'',
          tempMessage ''c1'' alice 1705314600005 ''2024-01-15T10:30:00.005Z'' ''second'']
       \<noteq> [tempMessage ''c1'' alice 1705314600005 ''2024-01-15T10:30:00.005Z'' ''second'']"
proof -
  have tid: "tempIdOf 1705314600005 = ''temp-1705314600005''"
    by (simp add: tempIdOf_def digitChar_def)
  have start: "handleSendMessageStart (Some ''c1'') (Some alice) 1705314600005 ''2024-01-15T10:30:00.005Z''
         ''second''
         (handleSendMessageStart (Some ''c1'') (Some alice) 1705314600005
            ''2024-01-15T10:30:00.005Z'' ''first'' [])
       = [tempMessage ''c1'' alice 1705314600005 ''2024-01-15T10:30:00.005Z'' ''first'',
          tempMessage ''c1'' alice 1705314600005 ''2024-01-15T10:30:00.005Z'' ''second'']"
    by (simp add: handleSendMessageStart_def sendOptimistic_def truthy_def)
  have gone: "handleSendMessageSettled alice (tempIdOf 1705314600005) None
         (Inl (ApiError ''Network Error'')) ''2024-01-15T10:30:01.000Z''
         [tempMessage ''c1'' alice 1705314600005 ''2024-01-15T10:30:00.005Z'' ''first'',
          tempMessage ''c1'' alice 1705314600005 ''2024-01-15T10:30:00.005Z'' ''second'']
       = []"
    by (simp add: handleSendMessageSettled_def sendRollback_def tempMessage_fields)
  show ?thesis
    unfolding gone using tid start by simp
qed

text \<open>
  C5 (as the code has it). A send in a selected chat appends at once a temporary record
  with the id \<open>temp-\<close> and the clock in milliseconds and with status \<open>sending\<close>. The
  updater of the reply runs on the message list as it is when the reply arrives and acts
  on every record with that id. If exactly one record of that list has the id: when the
  server call succeeds (after no upload or a successful one) exactly that record is
  replaced by the server message with the server id, status \<open>sent\<close> and the delivered
  timestamp set; when the upload or the server call fails exactly that record is removed;
  every other record stays as and where it is. The code does not itself make the id
  fresh: a send of the same millisecond gets the same id.
\<close>

theorem C5_optimistic_send:
  assumes "truthy selected"
  shows "handleSendMessageStart selected (Some u) nowMs nowIso body prev
           = prev @ [tempMessage (the selected) u nowMs nowIso body]
     \<and> msg_id (tempMessage (the selected) u nowMs nowIso body) = tempIdOf nowMs
     \<and> status (tempMessage (the selected) u nowMs nowIso body) = sending
     \<and> (msg_id m = tempIdOf nowMs \<and> tempIdOf nowMs \<notin> msg_id ` set front \<and> tempIdOf nowMs \<notin> msg_id ` set rest \<longrightarrow>
           handleSendMessageSettled u (tempIdOf nowMs) None (Inr r) doneIso (front @ m # rest)
             = front @ confirmedMessage u doneIso r # rest
         \<and> handleSendMessageSettled u (tempIdOf nowMs) (Some (Inr md)) (Inr r) doneIso (front @ m # rest)
             = front @ confirmedMessage u doneIso r # rest
         \<and> handleSendMessageSettled u (tempIdOf nowMs) None (Inl err) doneIso (front @ m # rest)
             = front @ rest
         \<and> handleSendMessageSettled u (tempIdOf nowMs) (Some (Inr md)) (Inl err) doneIso (front @ m # rest)
             = front @ rest
         \<and> handleSendMessageSettled u (tempIdOf nowMs) (Some (Inl err)) sendResult doneIso (front @ m # rest)
             = front @ rest)
     \<and> msg_id (confirmedMessage u doneIso r) = mr_id r
     \<and> status (confirmedMessage u doneIso r) = sent
     \<and> deliveredAt (confirmedMessage u doneIso r) = Some doneIso"
proof (intro conjI impI)
  show "handleSendMessageStart selected (Some u) nowMs nowIso body prev
           = prev @ [tempMessage (the selected) u nowMs nowIso body]"
    using assms by (rule handleSendMessageStart_appends)
  show "msg_id (tempMessage (the selected) u nowMs nowIso body) = tempIdOf nowMs"
    by (rule tempMessage_fields)
  show "status (tempMessage (the selected) u nowMs nowIso body) = sending"
    by (rule tempMessage_fields)
  show "msg_id (confirmedMessage u doneIso r) = mr_id r"
    by (rule confirmedMessage_fields)
  show "status (confirmedMessage u doneIso r) = sent"
    by (rule confirmedMessage_fields)
  show "deliveredAt (confirmedMessage u doneIso r) = Some doneIso"
    by (rule confirmedMessage_fields)
next
  assume once: "msg_id m = tempIdOf nowMs \<and> tempIdOf nowMs \<notin> msg_id ` set front \<and> tempIdOf nowMs \<notin> msg_id ` set rest"
  then have m: "msg_id m = tempIdOf nowMs" and b: "tempIdOf nowMs \<notin> msg_id ` set front"
    and a: "tempIdOf nowMs \<notin> msg_id ` set rest"
    by simp_all
  note commit = sendCommit_once[OF m b a, of u doneIso r]
  note rollback = sendRollback_once[OF m b a]
  show "handleSendMessageSettled u (tempIdOf nowMs) None (Inr r) doneIso (front @ m # rest)
             = front @ confirmedMessage u doneIso r # rest"
    using commit by (simp add: handleSendMessageSettled_def)
  show "handleSendMessageSettled u (tempIdOf nowMs) (Some (Inr md)) (Inr r) doneIso (front @ m # rest)
             = front @ confirmedMessage u doneIso r # rest"
    using commit by (simp add: handleSendMessageSettled_def)
  show "handleSendMessageSettled u (tempIdOf nowMs) None (Inl err) doneIso (front @ m # rest)
             = front @ rest"
    using rollback by (simp add: handleSendMessageSettled_def)
  show "handleSendMessageSettled u (tempIdOf nowMs) (Some (Inr md)) (Inl err) doneIso (front @ m # rest)
             = front @ rest"
    using rollback by (simp add: handleSendMessageSettled_def)
  show "handleSendMessageSettled u (tempIdOf nowMs) (Some (Inl err)) sendResult doneIso (front @ m # rest)
             = front @ rest"
    using rollback by (simp add: handleSendMessageSettled_def)
qed


theorem C5_optimistic_send_witness:
  "handleSendMessageStart (Some ''c1'') (Some alice) 1705314600005 ''2024-01-15T10:30:00.005Z''
       ''second'' [mkMessage ''m1'' ''c1'' ''bob'' ''hello'']
     = [mkMessage ''m1'' ''c1'' ''bob'' ''hello'',
        tempMessage ''c1'' alice 1705314600005 ''2024-01-15T10:30:00.005Z'' ''second'']
   \<and> handleSendMessageSettled alice (tempIdOf 1705314600005) None
       (Inr (mkResponse ''m7'' ''c1'' ''alice'' ''second'')) ''2024-01-15T10:30:01.000Z''
       ([mkMessage ''m1'' ''c1'' ''bob'' ''hello'']
        @ (tempMessage ''c1'' alice 1705314600005 ''2024-01-15T10:30:00.005Z'' ''second'')
            \<lparr>isNew := Some False\<rparr>
        # [mkMessage ''m2'' ''c1'' ''bob'' ''again''])
     = [mkMessage ''m1'' ''c1'' ''bob'' ''hello'']
       @ confirmedMessage alice ''2024-01-15T10:30:01.000Z'' (mkResponse ''m7'' ''c1'' ''alice'' ''second'')
       # [mkMessage ''m2'' ''c1'' ''bob'' ''again'']
   \<and> handleSendMessageSettled alice (tempIdOf 1705314600005) None
       (Inl (ApiError ''Network Error'')) ''2024-01-15T10:30:01.000Z''
       ([mkMessage ''m1'' ''c1'' ''bob'' ''hello'']
        @ (tempMessage ''c1'' alice 1705314600005 ''2024-01-15T10:30:00.005Z'' ''second'')
            \<lparr>isNew := Some False\<rparr>
        # [mkMessage ''m2'' ''c1'' ''bob'' ''again''])
     = [mkMessage ''m1'' ''c1'' ''bob'' ''hello''] @ [mkMessage ''m2'' ''c1'' ''bob'' ''again'']"
proof -
  have sel: "truthy (Some ''c1'')"
    by (simp add: truthy_def)
  have tid: "tempIdOf 1705314600005 = ''temp-1705314600005''"
    by (simp add: tempIdOf_def digitChar_def)
  have once: "msg_id ((tempMessage ''c1'' alice 1705314600005 ''2024-01-15T10:30:00.005Z'' ''second'')
                 \<lparr>isNew := Some False\<rparr>) = tempIdOf 1705314600005
      \<and> tempIdOf 1705314600005 \<notin> msg_id ` set [mkMessage ''m1'' ''c1'' ''bob'' ''hello'']
      \<and> tempIdOf 1705314600005 \<notin> msg_id ` set [mkMessage ''m2'' ''c1'' ''bob'' ''again'']"
    by (simp add: tempMessage_fields tid mkMessage_def)
  from C5_optimistic_send[OF sel, where u = alice and nowMs = 1705314600005
      and nowIso = "''2024-01-15T10:30:00.005Z''" and body = "''second''"
      and prev = "[mkMessage ''m1'' ''c1'' ''bob'' ''hello'']"
      and m = "(tempMessage ''c1'' alice 1705314600005 ''2024-01-15T10:30:00.005Z'' ''second'')
                 \<lparr>isNew := Some False\<rparr>"
      and front = "[mkMessage ''m1'' ''c1'' ''bob'' ''hello'']"
      and rest = "[mkMessage ''m2'' ''c1'' ''bob'' ''again'']"
      and r = "mkResponse ''m7'' ''c1'' ''alice'' ''second''"
      and doneIso = "''2024-01-15T10:30:01.000Z''"
      and err = "ApiError ''Network Error''"
      and md = "\<lparr>media_type = ''image'', media_url = ''https://media.example/1.png''\<rparr>"
      and sendResult = "Inl (ApiError ''Network Error'')"] once
  show ?thesis
    by simp
qed

section \<open>Marking a chat read\<close>

lemma findByIdAndUpdate_length: "length (findByIdAndUpdate castId cid f db) = length db"
  by (induction db) auto

lemma findByIdAndUpdate_found:
  assumes "findById castId cid db = Some c" and "chat_id (f c) = chat_id c"
  shows "findById castId cid (findByIdAndUpdate castId cid f db) = Some (f c)"
  using assms unfolding findById_def
  by (induction db) (auto split: if_splits)

lemma findByIdAndUpdate_other_id:
  assumes "castId k \<noteq> castId cid" and "\<And>d. chat_id (f d) = chat_id d"
  shows "findById castId k (findByIdAndUpdate castId cid f db) = findById castId k db"
  using assms unfolding findById_def
  by (induction db) auto

lemma findByIdAndUpdate_nth:
  "i < length db \<Longrightarrow> chat_id (db ! i) \<noteq> castId cid \<Longrightarrow>
     findByIdAndUpdate castId cid f db ! i = db ! i"
proof (induction db arbitrary: i)
  case Nil
  then show ?case by simp
next
  case (Cons c cs)
  show ?case
  proof (cases i)
    case 0
    with Cons.prems show ?thesis by simp
  next
    case (Suc j)
    with Cons show ?thesis by simp
  qed
qed

text \<open>
  C9 (the claim fails on the code). The chat id \<open>abc\<close> references no chat of the
  collection; the route answers with BadRequestError, not NotFoundError, because the
  format of the id is checked before the collection is read.
\<close>

theorem C9_malformed_chat_id:
  "findById objectIdOf ''abc'' [chatOne] = None
   \<and> fst (markChatRead isObjectIdString objectIdOf [chatOne] ''abc'' aliceId)
       = Inl (BadRequestError ''Invalid chat ID format'')
   \<and> fst (markChatRead isObjectIdString objectIdOf [chatOne] ''abc'' aliceId)
       \<noteq> Inl (NotFoundError ''Chat not found'')"
  by (simp add: markChatRead_def isObjectIdString_def findById_def objectIdOf_def lowerHex_def
        chatOne_def chatOneId_def mkChat_def)

text \<open>
  C9 (as the code has it). The operation fails with BadRequestError when the chat id is
  not a well-formed object id; for a well-formed id it fails with NotFoundError when no
  chat has the object id that the string denotes, and with ForbiddenError when the caller
  is not a participant of the chat. In the three failure cases the collection, and so
  every unread counter, is unchanged. On success the chat found is the old chat with the
  caller's counter set to 0 and nothing else changed (the counters of the other users and
  the other fields are those of the old chat); the lookup of every other object id and
  every document with another id are unchanged.
\<close>

theorem C9_mark_chat_read:
  "(\<not> isValid cid \<longrightarrow>
       markChatRead isValid castId db cid caller
         = (Inl (BadRequestError ''Invalid chat ID format''), db))
   \<and> (isValid cid \<and> findById castId cid db = None \<longrightarrow>
       markChatRead isValid castId db cid caller = (Inl (NotFoundError ''Chat not found''), db))
   \<and> (isValid cid \<and> findById castId cid db = Some c \<and> castId caller \<notin> set (participants c) \<longrightarrow>
       markChatRead isValid castId db cid caller
         = (Inl (ForbiddenError ''You do not have access to this chat''), db))
   \<and> (isValid cid \<and> findById castId cid db = Some c \<and> castId caller \<in> set (participants c) \<longrightarrow>
       fst (markChatRead isValid castId db cid caller) = Inr ''Chat marked as read''
       \<and> findById castId cid (snd (markChatRead isValid castId db cid caller))
           = Some (c\<lparr>unreadCount := (unreadCount c)(caller \<mapsto> 0)\<rparr>)
       \<and> (\<forall>k. castId k \<noteq> castId cid \<longrightarrow>
             findById castId k (snd (markChatRead isValid castId db cid caller))
               = findById castId k db)
       \<and> length (snd (markChatRead isValid castId db cid caller)) = length db
       \<and> (\<forall>i < length db. chat_id (db ! i) \<noteq> castId cid \<longrightarrow>
             snd (markChatRead isValid castId db cid caller) ! i = db ! i))
   \<and> (findById castId cid db = None) = (castId cid \<notin> chat_id ` set db)"
proof (intro conjI impI allI)
  show "markChatRead isValid castId db cid caller
          = (Inl (BadRequestError ''Invalid chat ID format''), db)"
    if "\<not> isValid cid"
    using that by (simp add: markChatRead_def)
  show "markChatRead isValid castId db cid caller = (Inl (NotFoundError ''Chat not found''), db)"
    if "isValid cid \<and> findById castId cid db = None"
    using that by (simp add: markChatRead_def)
  show "markChatRead isValid castId db cid caller
         = (Inl (ForbiddenError ''You do not have access to this chat''), db)"
    if "isValid cid \<and> findById castId cid db = Some c \<and> castId caller \<notin> set (participants c)"
    using that by (simp add: markChatRead_def list_ex_iff)
  show "(findById castId cid db = None) = (castId cid \<notin> chat_id ` set db)"
    unfolding findById_def by (induction db) auto
next
  assume ok: "isValid cid \<and> findById castId cid db = Some c \<and> castId caller \<in> set (participants c)"
  let ?f = "\<lambda>d. d\<lparr>unreadCount := (unreadCount d)(caller \<mapsto> 0)\<rparr>"
  have res: "markChatRead isValid castId db cid caller
               = (Inr ''Chat marked as read'', findByIdAndUpdate castId cid ?f db)"
    using ok by (simp add: markChatRead_def list_ex_iff)
  show "fst (markChatRead isValid castId db cid caller) = Inr ''Chat marked as read''"
    by (simp add: res)
  show "findById castId cid (snd (markChatRead isValid castId db cid caller))
           = Some (c\<lparr>unreadCount := (unreadCount c)(caller \<mapsto> 0)\<rparr>)"
    unfolding res snd_conv using ok by (intro findByIdAndUpdate_found) simp_all
  show "findById castId k (snd (markChatRead isValid castId db cid caller)) = findById castId k db"
    if "castId k \<noteq> castId cid" for k
    unfolding res snd_conv using that by (intro findByIdAndUpdate_other_id) simp_all
  show "length (snd (markChatRead isValid castId db cid caller)) = length db"
    by (simp add: res findByIdAndUpdate_length)
  show "snd (markChatRead isValid castId db cid caller) ! i = db ! i"
    if "i < length db" "chat_id (db ! i) \<noteq> castId cid" for i
    unfolding res snd_conv using that by (rule findByIdAndUpdate_nth)
qed

theorem C9_mark_chat_read_witness:
  "fst (markChatRead isObjectIdString objectIdOf [chatOne] chatOneId aliceId)
       = Inr ''Chat marked as read''
   \<and> findById objectIdOf chatOneId
         (snd (markChatRead isObjectIdString objectIdOf [chatOne] chatOneId aliceId))
       = Some (chatOne\<lparr>unreadCount := (unreadCount chatOne)(aliceId \<mapsto> 0)\<rparr>)
   \<and> findById objectIdOf chatOneId
         (snd (markChatRead isObjectIdString objectIdOf [chatOne] chatOneIdUpper aliceId))
       = Some (chatOne\<lparr>unreadCount := (unreadCount chatOne)(aliceId \<mapsto> 0)\<rparr>)
   \<and> markChatRead isObjectIdString objectIdOf [chatOne] missingChatId aliceId
       = (Inl (NotFoundError ''Chat not found''), [chatOne])
   \<and> markChatRead isObjectIdString objectIdOf [chatOne] chatOneId carolId
       = (Inl (ForbiddenError ''You do not have access to this chat''), [chatOne])
   \<and> markChatRead isObjectIdString objectIdOf [chatOne] ''abc'' aliceId
       = (Inl (BadRequestError ''Invalid chat ID format''), [chatOne])"
proof -
  have valid: "isObjectIdString chatOneId" "isObjectIdString chatOneIdUpper"
    "isObjectIdString missingChatId" "\<not> isObjectIdString ''abc''"
    by (simp_all add: isObjectIdString_def isHexDigit_def chatOneId_def chatOneIdUpper_def
          missingChatId_def)
  have casts: "objectIdOf chatOneId = chatOneId" "objectIdOf chatOneIdUpper = chatOneId"
    "objectIdOf missingChatId = missingChatId" "objectIdOf aliceId = aliceId"
    "objectIdOf carolId = carolId"
    by (simp_all add: objectIdOf_def lowerHex_def chatOneId_def chatOneIdUpper_def
          missingChatId_def aliceId_def carolId_def)
  have found: "findById objectIdOf chatOneId [chatOne] = Some chatOne"
    "findById objectIdOf chatOneIdUpper [chatOne] = Some chatOne"
    "findById objectIdOf missingChatId [chatOne] = None"
    unfolding findById_def casts
    by (simp_all add: chatOne_def mkChat_def chatOneId_def missingChatId_def)
  have members: "objectIdOf aliceId \<in> set (participants chatOne)"
    "objectIdOf carolId \<notin> set (participants chatOne)"
    unfolding casts
    by (simp_all add: chatOne_def mkChat_def aliceId_def bobId_def carolId_def)
  from C9_mark_chat_read[of isObjectIdString chatOneId objectIdOf "[chatOne]" aliceId chatOne]
    valid found members
  have ok: "fst (markChatRead isObjectIdString objectIdOf [chatOne] chatOneId aliceId)
              = Inr ''Chat marked as read''"
    "findById objectIdOf chatOneId
         (snd (markChatRead isObjectIdString objectIdOf [chatOne] chatOneId aliceId))
       = Some (chatOne\<lparr>unreadCount := (unreadCount chatOne)(aliceId \<mapsto> 0)\<rparr>)"
    by blast+
  from C9_mark_chat_read[of isObjectIdString chatOneIdUpper objectIdOf "[chatOne]" aliceId chatOne]
    valid found members
  have "findById objectIdOf chatOneIdUpper
         (snd (markChatRead isObjectIdString objectIdOf [chatOne] chatOneIdUpper aliceId))
       = Some (chatOne\<lparr>unreadCount := (unreadCount chatOne)(aliceId \<mapsto> 0)\<rparr>)"
    by blast
  then have upper: "findById objectIdOf chatOneId
         (snd (markChatRead isObjectIdString objectIdOf [chatOne] chatOneIdUpper aliceId))
       = Some (chatOne\<lparr>unreadCount := (unreadCount chatOne)(aliceId \<mapsto> 0)\<rparr>)"
    by (simp add: findById_def casts)
  from C9_mark_chat_read[of isObjectIdString missingChatId objectIdOf "[chatOne]" aliceId chatOne]
    valid found
  have nf: "markChatRead isObjectIdString objectIdOf [chatOne] missingChatId aliceId
       = (Inl (NotFoundError ''Chat not found''), [chatOne])"
    by blast
  from C9_mark_chat_read[of isObjectIdString chatOneId objectIdOf "[chatOne]" carolId chatOne]
    valid found members
  have fb: "markChatRead isObjectIdString objectIdOf [chatOne] chatOneId carolId
       = (Inl (ForbiddenError ''You do not have access to this chat''), [chatOne])"
    by blast
  from C9_mark_chat_read[of isObjectIdString "''abc''" objectIdOf "[chatOne]" aliceId chatOne] valid
  have br: "markChatRead isObjectIdString objectIdOf [chatOne] ''abc'' aliceId
       = (Inl (BadRequestError ''Invalid chat ID format''), [chatOne])"
    by blast
  from ok upper nf fb br show ?thesis
    by (intro conjI)
qed

section \<open>The chat list request\<close>

lemma isInteger_iff: "isInteger x = (\<exists>n. x = JNum (of_int n))"
  by (cases x) auto

lemma parseLimit_ok:
  assumes "toNumber raw = JNum (of_int n)" "1 \<le> n" "n \<le> 100"
  shows "parseLimit toNumber (Some raw) = Inr n"
  using assms by (simp add: parseLimit_def)

lemma parseLimit_bad:
  assumes "\<not> (\<exists>n. toNumber raw = JNum (of_int n) \<and> 1 \<le> n \<and> n \<le> 100)"
  shows "parseLimit toNumber (Some raw) = Inl (BadRequestError ''limit must be an integer between 1 and 100'')"
proof (cases "isInteger (toNumber raw)")
  case False
  then show ?thesis by (simp add: parseLimit_def)
next
  case True
  then obtain n where n: "toNumber raw = JNum (of_int n)"
    unfolding isInteger_iff by blast
  with assms have "n < 1 \<or> 100 < n" by auto
  then show ?thesis
    using n by (auto simp: parseLimit_def)
qed

lemma parseOffset_ok:
  assumes "toNumber raw = JNum (of_int n)" "0 \<le> n"
  shows "parseOffset toNumber (Some raw) = Inr n"
  using assms by (simp add: parseOffset_def)

lemma parseOffset_bad:
  assumes "\<not> (\<exists>n. toNumber raw = JNum (of_int n) \<and> 0 \<le> n)"
  shows "parseOffset toNumber (Some raw) = Inl (BadRequestError ''offset must be a non-negative integer'')"
proof (cases "isInteger (toNumber raw)")
  case False
  then show ?thesis by (simp add: parseOffset_def)
next
  case True
  then obtain n where n: "toNumber raw = JNum (of_int n)"
    unfolding isInteger_iff by blast
  with assms have "n < 0" by auto
  then show ?thesis
    using n by (auto simp: parseOffset_def)
qed

lemma parseLimit_cases:
  "parseLimit toNumber limitRaw = Inl (BadRequestError ''limit must be an integer between 1 and 100'')
   \<or> (\<exists>n. parseLimit toNumber limitRaw = Inr n)"
  by (cases limitRaw) (simp_all add: parseLimit_def Let_def)

lemma chatListEntry_same: "chatListEntry c = c"
  by (simp add: chatListEntry_def)


lemma map_chatListEntry: "map chatListEntry cs = cs"
  by (induction cs) (simp_all add: chatListEntry_same)

lemma getChats_defaults:
  "\<exists>r. getChats toNumber sortChats db me None None = Inr r \<and> res_limit r = 50 \<and> res_offset r = 0"
  by (simp add: getChats_def parseLimit_def parseOffset_def Let_def)

lemma getChats_result:
  assumes "getChats toNumber sortChats db me limitRaw offsetRaw = Inr r"
  shows "parseLimit toNumber limitRaw = Inr (res_limit r)"
    and "parseOffset toNumber offsetRaw = Inr (res_offset r)"
    and "res_chats r = take (nat (res_limit r)) (drop (nat (res_offset r))
             (sortChats (filter (\<lambda>c. me \<in> set (participants c)) db)))"
  using assms
  by (auto simp: getChats_def Let_def map_chatListEntry split: sum.splits)

lemma getChats_bad_limit:
  assumes "\<not> (\<exists>n. toNumber raw = JNum (of_int n) \<and> 1 \<le> n \<and> n \<le> 100)"
  shows "getChats toNumber sortChats db me (Some raw) offsetRaw
           = Inl (BadRequestError ''limit must be an integer between 1 and 100'')"
  using parseLimit_bad[of toNumber raw] assms by (simp add: getChats_def)

lemma getChats_bad_offset:
  assumes "\<not> (\<exists>n. toNumber raw = JNum (of_int n) \<and> 0 \<le> n)"
  shows "isBadRequest (getChats toNumber sortChats db me limitRaw (Some raw))"
  using parseLimit_cases[of toNumber limitRaw] parseOffset_bad[of toNumber raw] assms
  by (auto simp: getChats_def isBadRequest_def)

lemma getChats_accepts:
  assumes "toNumber rawL = JNum (of_int n)" "1 \<le> n" "n \<le> 100"
    and "toNumber rawO = JNum (of_int k)" "0 \<le> k"
  shows "\<exists>r. getChats toNumber sortChats db me (Some rawL) (Some rawO) = Inr r
           \<and> res_limit r = n \<and> res_offset r = k"
  using parseLimit_ok[of toNumber rawL n] parseOffset_ok[of toNumber rawO k] assms
  by (simp add: getChats_def Let_def)

text \<open>
  C10 (the claim fails on the code). A chat whose counter map has no entry for a
  participant: the chat list response carries the map as it is stored, so the counter of
  that participant is absent from the response, not reported as 0.
\<close>

theorem C10_absent_counter_stays_absent:
  "getChats (\<lambda>raw :: string. JNaN) (\<lambda>cs. cs) [mkChat chatOneId [aliceId, bobId] Map.empty]
       aliceId None None
     = Inr \<lparr>res_message = ''Chats retrieved'', res_total = 1, res_count = 1, res_limit = 50,
            res_offset = 0, res_chats = [mkChat chatOneId [aliceId, bobId] Map.empty]\<rparr>
   \<and> unreadCount (mkChat chatOneId [aliceId, bobId] Map.empty) aliceId = None
   \<and> unreadCount (mkChat chatOneId [aliceId, bobId] Map.empty) aliceId \<noteq> Some 0"
  by (simp add: getChats_def parseLimit_def parseOffset_def chatListEntry_same mkChat_def)

text \<open>
  C10 (as the code has it). An omitted limit is 50 and an omitted offset is 0. A supplied
  limit whose number is not an integer from 1 to 100 fails with BadRequestError, a
  supplied offset whose number is not a non-negative integer fails with BadRequestError,
  both whatever the collection holds: the chats are read only afterwards. Numbers in
  range are accepted as they are. The response holds the page of the caller's chats in
  the order of the query, each with its counter map as stored: a counter absent from the
  map is absent from the response. The helper \<open>getUnreadCount\<close> of the chat-details
  route is what reports an absent counter as 0.
\<close>

theorem C10_chat_list_request:
  "parseLimit toNumber None = Inr 50 \<and> parseOffset toNumber None = Inr 0
   \<and> (\<exists>r. getChats toNumber sortChats db me None None = Inr r
          \<and> res_limit r = 50 \<and> res_offset r = 0)
   \<and> (getChats toNumber sortChats db me None offsetRaw = Inr r1 \<longrightarrow> res_limit r1 = 50)
   \<and> (getChats toNumber sortChats db me limitRaw None = Inr r2 \<longrightarrow> res_offset r2 = 0)
   \<and> (\<not> (\<exists>n. toNumber raw = JNum (of_int n) \<and> 1 \<le> n \<and> n \<le> 100) \<longrightarrow>
         getChats toNumber sortChats db me (Some raw) offsetRaw
           = Inl (BadRequestError ''limit must be an integer between 1 and 100''))
   \<and> (\<not> (\<exists>n. toNumber raw = JNum (of_int n) \<and> 0 \<le> n) \<longrightarrow>
         isBadRequest (getChats toNumber sortChats db me limitRaw (Some raw)))
   \<and> (toNumber rawL = JNum (of_int n) \<and> 1 \<le> n \<and> n \<le> 100
        \<and> toNumber rawO = JNum (of_int k) \<and> 0 \<le> k \<longrightarrow>
         (\<exists>r. getChats toNumber sortChats db me (Some rawL) (Some rawO) = Inr r
               \<and> res_limit r = n \<and> res_offset r = k))
   \<and> (getChats toNumber sortChats db me limitRaw offsetRaw = Inr r3 \<longrightarrow>
         res_chats r3 = take (nat (res_limit r3)) (drop (nat (res_offset r3))
             (sortChats (filter (\<lambda>c. me \<in> set (participants c)) db))))
   \<and> unreadCount (chatListEntry c) = unreadCount c
   \<and> (counters u = None \<longrightarrow> getUnreadCount counters u = 0)
   \<and> (counters u = Some v \<longrightarrow> getUnreadCount counters u = v)"
proof (intro conjI impI)
  show "parseLimit toNumber None = Inr 50"
    by (simp add: parseLimit_def)
  show "parseOffset toNumber None = Inr 0"
    by (simp add: parseOffset_def)
  show "\<exists>r. getChats toNumber sortChats db me None None = Inr r
          \<and> res_limit r = 50 \<and> res_offset r = 0"
    by (rule getChats_defaults)
  show "res_limit r1 = 50" if "getChats toNumber sortChats db me None offsetRaw = Inr r1"
    using getChats_result(1)[OF that] by (simp add: parseLimit_def)
  show "res_offset r2 = 0" if "getChats toNumber sortChats db me limitRaw None = Inr r2"
    using getChats_result(2)[OF that] by (simp add: parseOffset_def)
  show "getChats toNumber sortChats db me (Some raw) offsetRaw
           = Inl (BadRequestError ''limit must be an integer between 1 and 100'')"
    if "\<not> (\<exists>n. toNumber raw = JNum (of_int n) \<and> 1 \<le> n \<and> n \<le> 100)"
    using that by (rule getChats_bad_limit)
  show "isBadRequest (getChats toNumber sortChats db me limitRaw (Some raw))"
    if "\<not> (\<exists>n. toNumber raw = JNum (of_int n) \<and> 0 \<le> n)"
    using that by (rule getChats_bad_offset)
  show "\<exists>r. getChats toNumber sortChats db me (Some rawL) (Some rawO) = Inr r
               \<and> res_limit r = n \<and> res_offset r = k"
    if "toNumber rawL = JNum (of_int n) \<and> 1 \<le> n \<and> n \<le> 100
        \<and> toNumber rawO = JNum (of_int k) \<and> 0 \<le> k"
    using that by (intro getChats_accepts) simp_all
  show "res_chats r3 = take (nat (res_limit r3)) (drop (nat (res_offset r3))
             (sortChats (filter (\<lambda>c. me \<in> set (participants c)) db)))"
    if "getChats toNumber sortChats db me limitRaw offsetRaw = Inr r3"
    using that by (rule getChats_result(3))
  show "unreadCount (chatListEntry c) = unreadCount c"
    by (simp add: chatListEntry_same)
  show "getUnreadCount counters u = 0" if "counters u = None"
    using that by (simp add: getUnreadCount_def orZero_def)
  show "getUnreadCount counters u = v" if "counters u = Some v"
    using that by (simp add: getUnreadCount_def orZero_def)
qed


theorem C10_chat_list_request_witness:
  "getChats sampleNumber (\<lambda>cs. cs) [chatOne] aliceId (Some ''101'') None
     = Inl (BadRequestError ''limit must be an integer between 1 and 100'')
   \<and> getChats sampleNumber (\<lambda>cs. cs) [chatOne] aliceId (Some ''abc'') None
     = Inl (BadRequestError ''limit must be an integer between 1 and 100'')
   \<and> isBadRequest (getChats sampleNumber (\<lambda>cs. cs) [chatOne] aliceId None (Some ''-1''))
   \<and> (\<exists>r. getChats sampleNumber (\<lambda>cs. cs) [chatOne] aliceId (Some ''20'') (Some ''0'') = Inr r
          \<and> res_limit r = 20 \<and> res_offset r = 0)
   \<and> getUnreadCount Map.empty aliceId = 0"
proof -
  have big: "\<not> (\<exists>n. sampleNumber ''101'' = JNum (of_int n) \<and> 1 \<le> n \<and> n \<le> 100)"
    by (simp add: sampleNumber_def)
  have nan: "\<not> (\<exists>n. sampleNumber ''abc'' = JNum (of_int n) \<and> 1 \<le> n \<and> n \<le> 100)"
    by (simp add: sampleNumber_def)
  have neg: "\<not> (\<exists>n. sampleNumber ''-1'' = JNum (of_int n) \<and> 0 \<le> n)"
    by (simp add: sampleNumber_def)
  have good: "sampleNumber ''20'' = JNum (of_int 20) \<and> (1::int) \<le> 20 \<and> (20::int) \<le> 100
        \<and> sampleNumber ''0'' = JNum (of_int 0) \<and> (0::int) \<le> 0"
    by (simp add: sampleNumber_def)
  have absent: "(Map.empty :: user_id \<rightharpoonup> int) aliceId = None"
    by simp
  from C10_chat_list_request[where toNumber = sampleNumber and raw = "''101''" and db = "[chatOne]"
      and me = aliceId and sortChats = "\<lambda>cs. cs" and offsetRaw = None] big
  have w1: "getChats sampleNumber (\<lambda>cs. cs) [chatOne] aliceId (Some ''101'') None
     = Inl (BadRequestError ''limit must be an integer between 1 and 100'')"
    by blast
  from C10_chat_list_request[where toNumber = sampleNumber and raw = "''abc''" and db = "[chatOne]"
      and me = aliceId and sortChats = "\<lambda>cs. cs" and offsetRaw = None] nan
  have w2: "getChats sampleNumber (\<lambda>cs. cs) [chatOne] aliceId (Some ''abc'') None
     = Inl (BadRequestError ''limit must be an integer between 1 and 100'')"
    by blast
  from C10_chat_list_request[where toNumber = sampleNumber and raw = "''-1''" and db = "[chatOne]"
      and me = aliceId and sortChats = "\<lambda>cs. cs" and limitRaw = None] neg
  have w3: "isBadRequest (getChats sampleNumber (\<lambda>cs. cs) [chatOne] aliceId None (Some ''-1''))"
    by blast
  from C10_chat_list_request[where toNumber = sampleNumber and rawL = "''20''" and rawO = "''0''"
      and n = 20 and k = 0 and db = "[chatOne]" and me = aliceId and sortChats = "\<lambda>cs. cs"] good
  have w4: "\<exists>r. getChats sampleNumber (\<lambda>cs. cs) [chatOne] aliceId (Some ''20'') (Some ''0'') = Inr r
          \<and> res_limit r = 20 \<and> res_offset r = 0"
    by blast
  from C10_chat_list_request[where counters = "Map.empty" and u = aliceId
      and toNumber = sampleNumber] absent
  have w5: "getUnreadCount Map.empty aliceId = 0"
    by blast
  from w1 w2 w3 w4 w5 show ?thesis
    by (intro conjI)
qed

section \<open>Typing signals and their timers\<close>

subsection \<open>What the invariant says about one user\<close>

lemma timersMatchRef_user:
  assumes "timersMatchRef st" "x \<in> set (timers st)"
  shows "typingTimeoutRef st (t_user x) = Some (t_handle x)"
    and "t_handle x \<le> lastHandle st" and "clock st < t_deadline x"
  using assms by (auto simp: timersMatchRef_def)

lemma timersMatchRef_handle_inj:
  assumes "timersMatchRef st" "x \<in> set (timers st)" "y \<in> set (timers st)"
    and "t_handle x = t_handle y"
  shows "x = y"
proof -
  from assms(1) have "distinct (map t_handle (timers st))"
    by (simp add: timersMatchRef_def)
  then have "inj_on t_handle (set (timers st))"
    by (simp add: distinct_map)
  with assms(2-4) show ?thesis
    unfolding inj_on_def by blast
qed

lemma timersMatchRef_ref:
  assumes "timersMatchRef st" "typingTimeoutRef st u = Some h"
  shows "\<exists>x \<in> set (timers st). t_user x = u \<and> t_handle x = h"
proof -
  from assms have "h \<in> t_handle ` set (timersOf u st)"
    by (simp add: timersMatchRef_def)
  then show ?thesis
    by (auto simp: timersOf_def)
qed

lemma handle_filter_is_user_filter:
  assumes inv: "timersMatchRef st" and ref: "typingTimeoutRef st u = Some h"
  shows "filter (\<lambda>x. t_handle x \<noteq> h) (timers st) = filter (\<lambda>x. t_user x \<noteq> u) (timers st)"
proof (rule filter_cong[OF refl])
  fix x assume x: "x \<in> set (timers st)"
  from timersMatchRef_ref[OF inv ref] obtain y where
    y: "y \<in> set (timers st)" "t_user y = u" "t_handle y = h" by blast
  show "(t_handle x \<noteq> h) = (t_user x \<noteq> u)"
  proof
    assume "t_handle x \<noteq> h"
    show "t_user x \<noteq> u"
    proof
      assume "t_user x = u"
      with timersMatchRef_user(1)[OF inv x] ref have "t_handle x = h" by simp
      with \<open>t_handle x \<noteq> h\<close> show False by simp
    qed
  next
    assume "t_user x \<noteq> u"
    show "t_handle x \<noteq> h"
    proof
      assume "t_handle x = h"
      with y(3) have "t_handle x = t_handle y" by simp
      from timersMatchRef_handle_inj[OF inv x y(1) this] y(2) \<open>t_user x \<noteq> u\<close>
      show False by simp
    qed
  qed
qed

lemma no_ref_no_timer:
  assumes inv: "timersMatchRef st" and ref: "typingTimeoutRef st u = None"
  shows "filter (\<lambda>x. t_user x \<noteq> u) (timers st) = timers st"
proof -
  have "t_user x \<noteq> u" if x: "x \<in> set (timers st)" for x
    using timersMatchRef_user(1)[OF inv x] ref by auto
  then show ?thesis
    by simp
qed

subsection \<open>The handler in the selected chat\<close>

lemma onTyping_other_chat: "Some (te_chatId ev) \<noteq> selected \<Longrightarrow> onTyping selected ev st = st"
  by (simp add: onTyping_def)

lemma onTyping_started_fields:
  assumes "Some (te_chatId ev) = selected" "te_isTyping ev"
  shows "typingUsers (onTyping selected ev st) = insert (te_userId ev) (typingUsers st)"
    and "timers (onTyping selected ev st)
           = (case typingTimeoutRef st (te_userId ev) of
                Some h \<Rightarrow> filter (\<lambda>x. t_handle x \<noteq> h) (timers st)
              | None \<Rightarrow> timers st)
             @ [\<lparr>t_handle = Suc (lastHandle st), t_user = te_userId ev,
                 t_deadline = clock st + 5000\<rparr>]"
    and "typingTimeoutRef (onTyping selected ev st)
           = (typingTimeoutRef st)(te_userId ev \<mapsto> Suc (lastHandle st))"
    and "lastHandle (onTyping selected ev st) = Suc (lastHandle st)"
    and "clock (onTyping selected ev st) = clock st"
  using assms
  by (simp_all add: onTyping_def setTimeoutFor_def clearTimeout_def Let_def split: option.splits)

lemma onTyping_stopped_fields:
  assumes "Some (te_chatId ev) = selected" "\<not> te_isTyping ev"
  shows "typingUsers (onTyping selected ev st) = typingUsers st - {te_userId ev}"
    and "timers (onTyping selected ev st)
           = (case typingTimeoutRef st (te_userId ev) of
                Some h \<Rightarrow> filter (\<lambda>x. t_handle x \<noteq> h) (timers st)
              | None \<Rightarrow> timers st)"
    and "typingTimeoutRef (onTyping selected ev st) = (typingTimeoutRef st)(te_userId ev := None)"
    and "lastHandle (onTyping selected ev st) = lastHandle st"
    and "clock (onTyping selected ev st) = clock st"
  using assms
  by (auto simp: onTyping_def clearTimeout_def Let_def split: option.splits)

lemma cleared_timers:
  assumes "timersMatchRef st"
  shows "(case typingTimeoutRef st u of
            Some h \<Rightarrow> filter (\<lambda>x. t_handle x \<noteq> h) (timers st)
          | None \<Rightarrow> timers st)
         = filter (\<lambda>x. t_user x \<noteq> u) (timers st)"
proof (cases "typingTimeoutRef st u")
  case None
  then show ?thesis
    using no_ref_no_timer[OF assms None] by simp
next
  case (Some h)
  then show ?thesis
    using handle_filter_is_user_filter[OF assms Some] by simp
qed


subsection \<open>The invariant is kept\<close>

lemma timersMatchRefI:
  assumes "distinct (map t_handle (timers st))"
    and "\<And>x. x \<in> set (timers st) \<Longrightarrow>
           typingTimeoutRef st (t_user x) = Some (t_handle x)
           \<and> t_handle x \<le> lastHandle st \<and> clock st < t_deadline x"
    and "\<And>u h. typingTimeoutRef st u = Some h \<Longrightarrow>
           \<exists>x \<in> set (timers st). t_user x = u \<and> t_handle x = h"
  shows "timersMatchRef st"
  unfolding timersMatchRef_def timersOf_def
proof (intro conjI ballI allI impI)
  show "distinct (map t_handle (timers st))" by (rule assms(1))
next
  fix x assume "x \<in> set (timers st)"
  from assms(2)[OF this]
  show "typingTimeoutRef st (t_user x) = Some (t_handle x)"
    "t_handle x \<le> lastHandle st" "clock st < t_deadline x"
    by blast+
next
  fix u h assume "typingTimeoutRef st u = Some h"
  from assms(3)[OF this] show "h \<in> t_handle ` set (filter (\<lambda>x. t_user x = u) (timers st))"
    by auto
qed

lemma timersMatchRef_started:
  assumes inv: "timersMatchRef st" and sel: "Some (te_chatId ev) = selected" and ty: "te_isTyping ev"
  shows "timersMatchRef (onTyping selected ev st)"
proof -
  let ?u = "te_userId ev" and ?st' = "onTyping selected ev st"
  let ?new = "\<lparr>t_handle = Suc (lastHandle st), t_user = ?u, t_deadline = clock st + 5000\<rparr>"
  note f = onTyping_started_fields[OF sel ty, of st]
  have tm: "timers ?st' = filter (\<lambda>x. t_user x \<noteq> ?u) (timers st) @ [?new]"
    unfolding f(2) cleared_timers[OF inv] ..
  show ?thesis
  proof (rule timersMatchRefI)
    have "Suc (lastHandle st) \<notin> t_handle ` set (filter (\<lambda>x. t_user x \<noteq> ?u) (timers st))"
    proof
      assume "Suc (lastHandle st) \<in> t_handle ` set (filter (\<lambda>x. t_user x \<noteq> ?u) (timers st))"
      then obtain x where x: "x \<in> set (timers st)" "t_handle x = Suc (lastHandle st)"
        by auto
      from timersMatchRef_user(2)[OF inv x(1)] x(2) show False
        by simp
    qed
    moreover have "distinct (map t_handle (filter (\<lambda>x. t_user x \<noteq> ?u) (timers st)))"
      using inv by (simp add: timersMatchRef_def distinct_map_filter)
    ultimately show "distinct (map t_handle (timers ?st'))"
      unfolding tm by simp
  next
    fix x assume "x \<in> set (timers ?st')"
    then consider "x = ?new" | "x \<in> set (timers st)" "t_user x \<noteq> ?u"
      unfolding tm by auto
    then show "typingTimeoutRef ?st' (t_user x) = Some (t_handle x)
                \<and> t_handle x \<le> lastHandle ?st' \<and> clock ?st' < t_deadline x"
    proof cases
      case 1
      then show ?thesis by (simp add: f)
    next
      case 2
      with timersMatchRef_user[OF inv 2(1)] show ?thesis by (simp add: f)
    qed
  next
    fix v h assume ref: "typingTimeoutRef ?st' v = Some h"
    show "\<exists>x \<in> set (timers ?st'). t_user x = v \<and> t_handle x = h"
    proof (cases "v = ?u")
      case True
      with ref have "h = Suc (lastHandle st)" by (simp add: f)
      then have "?new \<in> set (timers ?st') \<and> t_user ?new = v \<and> t_handle ?new = h"
        using True by (simp add: tm)
      then show ?thesis by blast
    next
      case False
      with ref have "typingTimeoutRef st v = Some h" by (simp add: f)
      from timersMatchRef_ref[OF inv this] obtain x where
        "x \<in> set (timers st)" "t_user x = v" "t_handle x = h" by blast
      with False have "x \<in> set (timers ?st') \<and> t_user x = v \<and> t_handle x = h"
        by (simp add: tm)
      then show ?thesis by blast
    qed
  qed
qed

lemma timersMatchRef_stopped:
  assumes inv: "timersMatchRef st" and sel: "Some (te_chatId ev) = selected" and ty: "\<not> te_isTyping ev"
  shows "timersMatchRef (onTyping selected ev st)"
proof -
  let ?u = "te_userId ev" and ?st' = "onTyping selected ev st"
  note f = onTyping_stopped_fields[OF sel ty, of st]
  have tm: "timers ?st' = filter (\<lambda>x. t_user x \<noteq> ?u) (timers st)"
    unfolding f(2) cleared_timers[OF inv] ..
  show ?thesis
  proof (rule timersMatchRefI)
    show "distinct (map t_handle (timers ?st'))"
      unfolding tm using inv by (simp add: timersMatchRef_def distinct_map_filter)
  next
    fix x assume "x \<in> set (timers ?st')"
    then have x: "x \<in> set (timers st)" "t_user x \<noteq> ?u"
      unfolding tm by auto
    with timersMatchRef_user[OF inv x(1)]
    show "typingTimeoutRef ?st' (t_user x) = Some (t_handle x)
                \<and> t_handle x \<le> lastHandle ?st' \<and> clock ?st' < t_deadline x"
      by (simp add: f)
  next
    fix v h assume ref: "typingTimeoutRef ?st' v = Some h"
    then have v: "v \<noteq> ?u" and old: "typingTimeoutRef st v = Some h"
      by (auto simp: f split: if_splits)
    from timersMatchRef_ref[OF inv old] obtain x where
      "x \<in> set (timers st)" "t_user x = v" "t_handle x = h" by blast
    with v have "x \<in> set (timers ?st') \<and> t_user x = v \<and> t_handle x = h"
      by (simp add: tm)
    then show "\<exists>x \<in> set (timers ?st'). t_user x = v \<and> t_handle x = h" by blast
  qed
qed

lemma timersMatchRef_onTyping:
  "timersMatchRef st \<Longrightarrow> timersMatchRef (onTyping selected ev st)"
  by (cases "Some (te_chatId ev) = selected"; cases "te_isTyping ev")
     (simp_all add: timersMatchRef_started timersMatchRef_stopped onTyping_other_chat)


subsection \<open>Timers that fire\<close>

lemma fire_all_fields:
  "timers (foldl (\<lambda>s x. fireTimer x s) st ds)
     = filter (\<lambda>y. t_handle y \<notin> t_handle ` set ds) (timers st)"
  "typingUsers (foldl (\<lambda>s x. fireTimer x s) st ds) = typingUsers st - t_user ` set ds"
  "typingTimeoutRef (foldl (\<lambda>s x. fireTimer x s) st ds) v
     = (if v \<in> t_user ` set ds then None else typingTimeoutRef st v)"
  "lastHandle (foldl (\<lambda>s x. fireTimer x s) st ds) = lastHandle st"
  "clock (foldl (\<lambda>s x. fireTimer x s) st ds) = clock st"
proof (induction ds arbitrary: st)
  case Nil
  {
    case 1 show ?case by simp
  next
    case 2 show ?case by simp
  next
    case 3 show ?case by simp
  next
    case 4 show ?case by simp
  next
    case 5 show ?case by simp
  }
next
  case (Cons x ds)
  {
    case 1 show ?case unfolding foldl_Cons Cons.IH(1) by (simp add: fireTimer_def conj_commute)
  next
    case 2 show ?case unfolding foldl_Cons Cons.IH(2) by (auto simp: fireTimer_def)
  next
    case 3 show ?case unfolding foldl_Cons Cons.IH(3) by (simp add: fireTimer_def)
  next
    case 4 show ?case unfolding foldl_Cons Cons.IH(4) by (simp add: fireTimer_def)
  next
    case 5 show ?case unfolding foldl_Cons Cons.IH(5) by (simp add: fireTimer_def)
  }
qed


lemma advanceTo_early: "t < clock st \<Longrightarrow> advanceTo t st = st"
  by (simp add: advanceTo_def)

lemma advanceTo_fields:
  assumes inv: "timersMatchRef st" and t: "clock st \<le> t"
  shows "timers (advanceTo t st) = filter (\<lambda>y. t < t_deadline y) (timers st)"
    and "typingUsers (advanceTo t st)
           = typingUsers st - t_user ` {x \<in> set (timers st). t_deadline x \<le> t}"
    and "typingTimeoutRef (advanceTo t st) v
           = (if v \<in> t_user ` {x \<in> set (timers st). t_deadline x \<le> t} then None
              else typingTimeoutRef st v)"
    and "lastHandle (advanceTo t st) = lastHandle st"
    and "clock (advanceTo t st) = t"
proof -
  let ?due = "filter (\<lambda>x. t_deadline x \<le> t) (timers st)"
  have adv: "advanceTo t st = (foldl (\<lambda>s x. fireTimer x s) st ?due)\<lparr>clock := t\<rparr>"
    using t by (simp add: advanceTo_def)
  have "filter (\<lambda>y. t_handle y \<notin> t_handle ` set ?due) (timers st)
          = filter (\<lambda>y. t < t_deadline y) (timers st)"
  proof (rule filter_cong[OF refl])
    fix y assume y: "y \<in> set (timers st)"
    show "(t_handle y \<notin> t_handle ` set ?due) = (t < t_deadline y)"
    proof
      assume "t_handle y \<notin> t_handle ` set ?due"
      then have "y \<notin> set ?due" by blast
      with y show "t < t_deadline y" by simp
    next
      assume late: "t < t_deadline y"
      show "t_handle y \<notin> t_handle ` set ?due"
      proof
        assume "t_handle y \<in> t_handle ` set ?due"
        then obtain x where x: "x \<in> set (timers st)" "t_deadline x \<le> t" "t_handle y = t_handle x"
          by auto
        from timersMatchRef_handle_inj[OF inv y x(1) x(3)] x(2) late show False
          by simp
      qed
    qed
  qed
  then show "timers (advanceTo t st) = filter (\<lambda>y. t < t_deadline y) (timers st)"
    by (simp add: adv fire_all_fields(1))
  show "typingUsers (advanceTo t st)
           = typingUsers st - t_user ` {x \<in> set (timers st). t_deadline x \<le> t}"
    by (simp add: adv fire_all_fields(2))
  show "typingTimeoutRef (advanceTo t st) v
           = (if v \<in> t_user ` {x \<in> set (timers st). t_deadline x \<le> t} then None
              else typingTimeoutRef st v)"
    by (simp add: adv fire_all_fields(3))
  show "lastHandle (advanceTo t st) = lastHandle st"
    by (simp add: adv fire_all_fields(4))
  show "clock (advanceTo t st) = t"
    by (simp add: adv)
qed

lemma timersMatchRef_advanceTo:
  assumes inv: "timersMatchRef st"
  shows "timersMatchRef (advanceTo t st)"
proof (cases "t < clock st")
  case True
  then show ?thesis
    using inv by (simp add: advanceTo_early)
next
  case False
  then have t: "clock st \<le> t" by simp
  note f = advanceTo_fields[OF inv t]
  show ?thesis
  proof (rule timersMatchRefI)
    show "distinct (map t_handle (timers (advanceTo t st)))"
      unfolding f(1) using inv by (simp add: timersMatchRef_def distinct_map_filter)
  next
    fix x assume "x \<in> set (timers (advanceTo t st))"
    then have x: "x \<in> set (timers st)" "t < t_deadline x"
      unfolding f(1) by auto
    have "t_user x \<notin> t_user ` {y \<in> set (timers st). t_deadline y \<le> t}"
    proof
      assume "t_user x \<in> t_user ` {y \<in> set (timers st). t_deadline y \<le> t}"
      then obtain y where y: "y \<in> set (timers st)" "t_deadline y \<le> t" "t_user x = t_user y"
        by auto
      from timersMatchRef_user(1)[OF inv x(1)] timersMatchRef_user(1)[OF inv y(1)] y(3)
      have "t_handle x = t_handle y" by simp
      from timersMatchRef_handle_inj[OF inv x(1) y(1) this] x(2) y(2) show False
        by simp
    qed
    with timersMatchRef_user[OF inv x(1)] x(2)
    show "typingTimeoutRef (advanceTo t st) (t_user x) = Some (t_handle x)
            \<and> t_handle x \<le> lastHandle (advanceTo t st) \<and> clock (advanceTo t st) < t_deadline x"
      by (simp add: f)
  next
    fix u h assume ref: "typingTimeoutRef (advanceTo t st) u = Some h"
    then have nodue: "u \<notin> t_user ` {y \<in> set (timers st). t_deadline y \<le> t}"
      and old: "typingTimeoutRef st u = Some h"
      by (auto simp: f(3) split: if_splits)
    from timersMatchRef_ref[OF inv old] obtain x where
      x: "x \<in> set (timers st)" "t_user x = u" "t_handle x = h" by blast
    with nodue have "t < t_deadline x" by force
    with x have "x \<in> set (timers (advanceTo t st)) \<and> t_user x = u \<and> t_handle x = h"
      by (simp add: f(1))
    then show "\<exists>x \<in> set (timers (advanceTo t st)). t_user x = u \<and> t_handle x = h"
      by blast
  qed
qed

lemma timersMatchRef_typingRun:
  "timersMatchRef st \<Longrightarrow> timersMatchRef (typingRun selected evs st)"
  by (induction selected evs st rule: typingRun.induct)
     (simp_all add: timersMatchRef_onTyping timersMatchRef_advanceTo)


subsection \<open>One signal through a run of events\<close>

lemma clock_onTyping: "clock (onTyping selected ev st) = clock st"
  by (cases "Some (te_chatId ev) = selected"; cases "te_isTyping ev")
     (simp_all add: onTyping_started_fields onTyping_stopped_fields onTyping_other_chat)

lemma clock_advanceTo: "clock (advanceTo t st) = max t (clock st)"
  by (simp add: advanceTo_def fire_all_fields(5))

lemma signalState_started:
  assumes inv: "timersMatchRef st" and sel: "Some (te_chatId ev) = selected" and ty: "te_isTyping ev"
  shows "signalState (te_userId ev) (Suc (lastHandle st)) (clock st + 5000) (onTyping selected ev st)"
proof -
  note f = onTyping_started_fields[OF sel ty, of st]
  have "timersOf (te_userId ev) (onTyping selected ev st)
          = [\<lparr>t_handle = Suc (lastHandle st), t_user = te_userId ev, t_deadline = clock st + 5000\<rparr>]"
    unfolding timersOf_def f(2) cleared_timers[OF inv] by simp
  then show ?thesis
    by (simp add: signalState_def f)
qed

lemma signalState_stopped:
  assumes inv: "timersMatchRef st" and sel: "Some (te_chatId ev) = selected" and ty: "\<not> te_isTyping ev"
  shows "te_userId ev \<notin> typingUsers (onTyping selected ev st)
         \<and> timersOf (te_userId ev) (onTyping selected ev st) = []
         \<and> typingTimeoutRef (onTyping selected ev st) (te_userId ev) = None"
proof -
  note f = onTyping_stopped_fields[OF sel ty, of st]
  have "timersOf (te_userId ev) (onTyping selected ev st) = []"
    unfolding timersOf_def f(2) cleared_timers[OF inv] by simp
  then show ?thesis
    by (simp add: f)
qed

lemma signalState_other_event:
  assumes inv: "timersMatchRef st" and sig: "signalState u h d st" and other: "te_userId ev \<noteq> u"
  shows "signalState u h d (onTyping selected ev st)"
proof (cases "Some (te_chatId ev) = selected")
  case False
  then show ?thesis
    using sig by (simp add: onTyping_other_chat)
next
  case sel: True
  show ?thesis
  proof (cases "te_isTyping ev")
    case True
    note f = onTyping_started_fields[OF sel True, of st]
    have "timersOf u (onTyping selected ev st) = timersOf u st"
      unfolding timersOf_def f(2) cleared_timers[OF inv] using other
      by (auto intro: filter_cong)
    then show ?thesis
      using sig other by (simp add: signalState_def f)
  next
    case False
    note f = onTyping_stopped_fields[OF sel False, of st]
    have "timersOf u (onTyping selected ev st) = timersOf u st"
      unfolding timersOf_def f(2) cleared_timers[OF inv] using other
      by (auto intro: filter_cong)
    then show ?thesis
      using sig other by (simp add: signalState_def f)
  qed
qed

lemma signalState_advanceTo:
  assumes inv: "timersMatchRef st" and sig: "signalState u h d st"
  shows "signalState u h d (advanceTo t st)"
proof (cases "t < clock st")
  case True
  then show ?thesis
    using sig by (simp add: advanceTo_early)
next
  case False
  then have t: "clock st \<le> t" by simp
  note f = advanceTo_fields[OF inv t]
  have of_u: "timersOf u (advanceTo t st) = filter (\<lambda>y. t < t_deadline y) (timersOf u st)"
    by (simp add: timersOf_def f(1) conj_commute)
  have due_u: "(u \<in> t_user ` {x \<in> set (timers st). t_deadline x \<le> t})
                 = (\<exists>x \<in> set (timersOf u st). t_deadline x \<le> t)"
    by (auto simp: timersOf_def)
  show ?thesis
  proof (cases "clock st < d")
    case pending: True
    with sig have st: "u \<in> typingUsers st"
      "timersOf u st = [\<lparr>t_handle = h, t_user = u, t_deadline = d\<rparr>]"
      "typingTimeoutRef st u = Some h"
      by (simp_all add: signalState_def)
    show ?thesis
    proof (cases "d \<le> t")
      case True
      then show ?thesis
        by (simp add: signalState_def f of_u due_u st)
    next
      case False
      then show ?thesis
        by (simp add: signalState_def f of_u due_u st)
    qed
  next
    case cleared: False
    with sig have st: "u \<notin> typingUsers st" "timersOf u st = []" "typingTimeoutRef st u = None"
      by (simp_all add: signalState_def)
    from cleared t have "\<not> t < d" by simp
    then show ?thesis
      by (simp add: signalState_def f of_u due_u st)
  qed
qed

lemma signalState_typingRun:
  assumes "timersMatchRef st" "signalState u h d st"
    and "list_all (\<lambda>(t, e). te_userId e \<noteq> u) evs"
  shows "signalState u h d (typingRun selected evs st)"
  using assms
proof (induction selected evs st rule: typingRun.induct)
  case (1 selected st)
  then show ?case by simp
next
  case (2 selected t ev rest st)
  from "2.prems" have other: "te_userId ev \<noteq> u" and rest: "list_all (\<lambda>(t, e). te_userId e \<noteq> u) rest"
    by simp_all
  have inv1: "timersMatchRef (advanceTo t st)"
    using "2.prems"(1) by (rule timersMatchRef_advanceTo)
  have sig1: "signalState u h d (advanceTo t st)"
    using "2.prems"(1,2) by (rule signalState_advanceTo)
  have inv2: "timersMatchRef (onTyping selected ev (advanceTo t st))"
    using inv1 by (rule timersMatchRef_onTyping)
  have sig2: "signalState u h d (onTyping selected ev (advanceTo t st))"
    using inv1 sig1 other by (rule signalState_other_event)
  show ?case
    using "2.IH"[OF inv2 sig2 rest] by simp
qed

lemma clock_typingRun_before:
  assumes "clock st < d" "list_all (\<lambda>(t, e). t < d) evs"
  shows "clock (typingRun selected evs st) < d"
  using assms
  by (induction selected evs st rule: typingRun.induct)
     (simp_all add: clock_onTyping clock_advanceTo)


lemma list_all_both:
  "list_all (\<lambda>(t, e). P e \<and> Q t) evs \<Longrightarrow> list_all (\<lambda>(t, e). P e) evs \<and> list_all (\<lambda>(t, e). Q t) evs"
  by (induction evs) auto

text \<open>
  C8 (the claim fails on the code). The open chat is \<open>c1\<close>; a typing-started event of
  user \<open>bob\<close> in chat \<open>c2\<close> arrives. The handler returns at once: the user is not added
  to the typing set and no timer is started.
\<close>

theorem C8_other_chat_ignored:
  "onTyping (Some ''c1'') \<lparr>te_chatId = ''c2'', te_userId = ''bob'', te_isTyping = True\<rparr> initialTyping
     = initialTyping
   \<and> ''bob'' \<notin> typingUsers
        (onTyping (Some ''c1'') \<lparr>te_chatId = ''c2'', te_userId = ''bob'', te_isTyping = True\<rparr>
           initialTyping)
   \<and> timers
        (onTyping (Some ''c1'') \<lparr>te_chatId = ''c2'', te_userId = ''bob'', te_isTyping = True\<rparr>
           initialTyping) = []"
  by (simp add: onTyping_def initialTyping_def)

text \<open>
  C8 (as the code has it). For a typing event of the selected chat, in a state where the
  pending timers are exactly the entries of the timer map:
  a typing-started event puts the user into the typing set and leaves exactly one pending
  timer for the user, a new one due 5000 ms later, which the map now holds; a previous
  timer of the user is no longer pending. While only events of other users arrive, all
  before that time, the user stays in the set; once the clock has reached that time, with
  only events of other users in between, the user is out of the set and has no timer and
  no entry in the map. A typing-stopped event takes the user out of the set at once and
  leaves no timer and no entry for the user. After every such step the pending timers are
  again exactly the entries of the map, so no timer of a superseded or fulfilled signal
  remains. A typing event of any other chat changes nothing.
\<close>

theorem C8_typing_signals:
  assumes "timersMatchRef st" and "Some (te_chatId ev) = selected"
  shows "(te_isTyping ev \<longrightarrow>
            te_userId ev \<in> typingUsers (onTyping selected ev st)
          \<and> timersOf (te_userId ev) (onTyping selected ev st)
              = [\<lparr>t_handle = Suc (lastHandle st), t_user = te_userId ev,
                  t_deadline = clock st + 5000\<rparr>]
          \<and> typingTimeoutRef (onTyping selected ev st) (te_userId ev) = Some (Suc (lastHandle st)))
     \<and> (te_isTyping ev
          \<and> list_all (\<lambda>(t', e). te_userId e \<noteq> te_userId ev \<and> t' < clock st + 5000) later \<longrightarrow>
            te_userId ev \<in> typingUsers (typingRun selected later (onTyping selected ev st)))
     \<and> (te_isTyping ev \<and> list_all (\<lambda>(t', e). te_userId e \<noteq> te_userId ev) later
          \<and> clock st + 5000 \<le> t \<longrightarrow>
            te_userId ev \<notin> typingUsers (advanceTo t (typingRun selected later (onTyping selected ev st)))
          \<and> timersOf (te_userId ev) (advanceTo t (typingRun selected later (onTyping selected ev st))) = []
          \<and> typingTimeoutRef (advanceTo t (typingRun selected later (onTyping selected ev st)))
               (te_userId ev) = None)
     \<and> (\<not> te_isTyping ev \<longrightarrow>
            te_userId ev \<notin> typingUsers (onTyping selected ev st)
          \<and> timersOf (te_userId ev) (onTyping selected ev st) = []
          \<and> typingTimeoutRef (onTyping selected ev st) (te_userId ev) = None)
     \<and> timersMatchRef (onTyping selected ev st)
     \<and> timersMatchRef (advanceTo t (typingRun selected later (onTyping selected ev st)))
     \<and> (Some (te_chatId other) \<noteq> selected \<longrightarrow> onTyping selected other st = st)"
proof -
  let ?u = "te_userId ev" and ?d = "clock st + 5000" and ?h = "Suc (lastHandle st)"
  let ?st1 = "onTyping selected ev st"
  have inv1: "timersMatchRef ?st1"
    using assms(1) by (rule timersMatchRef_onTyping)
  have inv2: "timersMatchRef (typingRun selected later ?st1)"
    using inv1 by (rule timersMatchRef_typingRun)
  have inv3: "timersMatchRef (advanceTo t (typingRun selected later ?st1))"
    using inv2 by (rule timersMatchRef_advanceTo)
  have started: "?u \<in> typingUsers ?st1
      \<and> timersOf ?u ?st1 = [\<lparr>t_handle = ?h, t_user = ?u, t_deadline = ?d\<rparr>]
      \<and> typingTimeoutRef ?st1 ?u = Some ?h" if ty: "te_isTyping ev"
    using signalState_started[OF assms ty] by (simp add: signalState_def clock_onTyping)
  have stays: "?u \<in> typingUsers (typingRun selected later ?st1)"
    if "te_isTyping ev \<and> list_all (\<lambda>(t', e). te_userId e \<noteq> ?u \<and> t' < ?d) later"
  proof -
    from that list_all_both[of "\<lambda>e. te_userId e \<noteq> ?u" "\<lambda>t'. t' < ?d" later]
    have ty: "te_isTyping ev" and others: "list_all (\<lambda>(t', e). te_userId e \<noteq> ?u) later"
      and early: "list_all (\<lambda>(t', e). t' < ?d) later"
      by simp_all
    have "signalState ?u ?h ?d (typingRun selected later ?st1)"
      using inv1 signalState_started[OF assms ty] others by (rule signalState_typingRun)
    moreover have "clock (typingRun selected later ?st1) < ?d"
      using early by (intro clock_typingRun_before) (simp_all add: clock_onTyping)
    ultimately show ?thesis
      by (simp add: signalState_def)
  qed
  have expired: "?u \<notin> typingUsers (advanceTo t (typingRun selected later ?st1))
      \<and> timersOf ?u (advanceTo t (typingRun selected later ?st1)) = []
      \<and> typingTimeoutRef (advanceTo t (typingRun selected later ?st1)) ?u = None"
    if "te_isTyping ev \<and> list_all (\<lambda>(t', e). te_userId e \<noteq> ?u) later \<and> ?d \<le> t"
  proof -
    from that have ty: "te_isTyping ev" and others: "list_all (\<lambda>(t', e). te_userId e \<noteq> ?u) later"
      and late: "?d \<le> t"
      by simp_all
    have "signalState ?u ?h ?d (typingRun selected later ?st1)"
      using inv1 signalState_started[OF assms ty] others by (rule signalState_typingRun)
    with inv2 have "signalState ?u ?h ?d (advanceTo t (typingRun selected later ?st1))"
      by (rule signalState_advanceTo)
    moreover have "\<not> clock (advanceTo t (typingRun selected later ?st1)) < ?d"
      using late by (simp add: clock_advanceTo)
    ultimately show ?thesis
      by (simp add: signalState_def)
  qed
  have stopped: "?u \<notin> typingUsers ?st1 \<and> timersOf ?u ?st1 = [] \<and> typingTimeoutRef ?st1 ?u = None"
    if "\<not> te_isTyping ev"
    using assms that by (rule signalState_stopped)
  have ignored: "onTyping selected other st = st" if "Some (te_chatId other) \<noteq> selected"
    using that by (rule onTyping_other_chat)
  from started stays expired stopped inv1 inv3 ignored show ?thesis
    by blast
qed

theorem C8_typing_signals_witness:
  "''bob'' \<in> typingUsers
       (onTyping (Some ''c1'') \<lparr>te_chatId = ''c1'', te_userId = ''bob'', te_isTyping = True\<rparr>
          initialTyping)
   \<and> ''bob'' \<in> typingUsers
       (typingRun (Some ''c1'')
          [(1000, \<lparr>te_chatId = ''c1'', te_userId = ''carol'', te_isTyping = True\<rparr>)]
          (onTyping (Some ''c1'') \<lparr>te_chatId = ''c1'', te_userId = ''bob'', te_isTyping = True\<rparr>
             initialTyping))
   \<and> ''bob'' \<notin> typingUsers
       (advanceTo 5000
          (typingRun (Some ''c1'')
             [(1000, \<lparr>te_chatId = ''c1'', te_userId = ''carol'', te_isTyping = True\<rparr>)]
             (onTyping (Some ''c1'') \<lparr>te_chatId = ''c1'', te_userId = ''bob'', te_isTyping = True\<rparr>
                initialTyping)))
   \<and> timersMatchRef
       (advanceTo 5000
          (typingRun (Some ''c1'')
             [(1000, \<lparr>te_chatId = ''c1'', te_userId = ''carol'', te_isTyping = True\<rparr>)]
             (onTyping (Some ''c1'') \<lparr>te_chatId = ''c1'', te_userId = ''bob'', te_isTyping = True\<rparr>
                initialTyping)))"
proof -
  have inv: "timersMatchRef initialTyping"
    by (simp add: timersMatchRef_def initialTyping_def)
  have sel: "Some (te_chatId \<lparr>te_chatId = ''c1'', te_userId = ''bob'', te_isTyping = True\<rparr>) = Some ''c1''"
    by simp
  have clk: "clock initialTyping = 0"
    by (simp add: initialTyping_def)
  show ?thesis
    using C8_typing_signals[OF inv sel,
        of "[(1000, \<lparr>te_chatId = ''c1'', te_userId = ''carol'', te_isTyping = True\<rparr>)]" 5000]
    by (simp add: clk)
qed

end
